theory Spec2Isabelle
  imports Complex_Main "HOL-Library.Char_ord" "HOL-Library.List_Lexorder"
begin

section \<open>Data model of the dashboard notebook\<close>

text \<open>
  The notebook \<^verbatim>\<open>Dashboard.ipynb\<close> raises Python exceptions; they are values here.
  \<open>ParseError\<close> is the \<^verbatim>\<open>ValueError\<close> that \<^verbatim>\<open>pd.to_datetime\<close> raises on a string it
  cannot read as a date; \<open>ValueError\<close> stands for every other \<^verbatim>\<open>ValueError\<close> of the
  cells modelled (\<^verbatim>\<open>pd.date_range\<close> on \<^verbatim>\<open>NaT\<close>, the truth value of a Series, \<^verbatim>\<open>float\<close>
  of a string that is no number). \<open>IndexError\<close>, \<open>KeyError\<close>, \<open>OverflowError\<close> and
  \<open>TypeError\<close> are Python's own. \<open>FetchError\<close> is whatever the call of the API raises.
\<close>

datatype error =
  IndexError | KeyError | ParseError | ValueError | OverflowError | TypeError | FetchError

text \<open>
  A pandas \<^verbatim>\<open>Timestamp\<close> at midnight is modelled by its proleptic Gregorian ordinal
  (the value of \<^verbatim>\<open>Timestamp.toordinal()\<close>: day 1 is 0001-01-01), so that one calendar
  day is one unit. \<^verbatim>\<open>pd.to_datetime\<close> returns a \<^verbatim>\<open>Timestamp\<close> or \<^verbatim>\<open>NaT\<close>.
\<close>

type_synonym timestamp = int

datatype datetime = NaT | Timestamp timestamp

text \<open>
  A Python float: a finite value, an infinity, or \<^verbatim>\<open>nan\<close>. The finite values are reals
  here; which reals are doubles is not modelled, the conversion of an integer to the
  nearest double is.
\<close>

datatype pyfloat = Finite real | PosInf | NegInf | NaN

text \<open>
  A value of a numeric field of a raw record, as \<^verbatim>\<open>json.load\<close> gives it: \<^verbatim>\<open>None\<close> for
  JSON \<^verbatim>\<open>null\<close>, a Python \<^verbatim>\<open>int\<close>, or a Python \<^verbatim>\<open>float\<close> (which is \<^verbatim>\<open>inf\<close> for a
  literal such as \<^verbatim>\<open>1e999\<close>, and \<^verbatim>\<open>nan\<close> for \<^verbatim>\<open>NaN\<close>).
\<close>

datatype number = NoData | PyInt int | PyFloat pyfloat

text \<open>
  A raw record is a Python dict: its item \<^verbatim>\<open>'Date'\<close> is a string, every other item
  (\<open>items\<close>) a numeric value; a key outside the domain of \<open>items\<close> is absent.
\<close>

record entry =
  Date :: string
  items :: "string \<rightharpoonup> number"

text \<open>
  A DataFrame: its row index, its column labels, and its cells. A cell that is unset
  holds \<^verbatim>\<open>NaN\<close>; \<^verbatim>\<open>pd.isna\<close> cannot tell an unset cell from one in which \<^verbatim>\<open>nan\<close>
  was written.
\<close>

record dataframe =
  index :: "timestamp list"
  columns :: "string list"
  cells :: "timestamp \<times> string \<Rightarrow> pyfloat"

section \<open>Calendar arithmetic behind \<^verbatim>\<open>pd.to_datetime\<close>\<close>

definition is_leap :: "int \<Rightarrow> bool" where
  "is_leap y = (y mod 4 = 0 \<and> (y mod 100 \<noteq> 0 \<or> y mod 400 = 0))"

definition days_in_month :: "int \<Rightarrow> int \<Rightarrow> int" where
  "days_in_month y m =
     (if m = 2 then (if is_leap y then 29 else 28)
      else if m = 4 \<or> m = 6 \<or> m = 9 \<or> m = 11 then 30
      else 31)"

definition days_before_year :: "int \<Rightarrow> int" where
  "days_before_year y = 365 * (y - 1) + (y - 1) div 4 - (y - 1) div 100 + (y - 1) div 400"

definition days_before_month :: "int \<Rightarrow> int \<Rightarrow> int" where
  "days_before_month y m = sum_list (map (days_in_month y) [1..m - 1])"

definition ymd2ord :: "int \<Rightarrow> int \<Rightarrow> int \<Rightarrow> timestamp" where
  "ymd2ord y m d = days_before_year y + days_before_month y m + d"

text \<open>
  The first and the last midnight a nanosecond-resolution \<^verbatim>\<open>Timestamp\<close> can hold:
  1677-09-22 and 2262-04-11.
\<close>

definition Timestamp_min :: timestamp where
  "Timestamp_min = ymd2ord 1677 9 22"

definition Timestamp_max :: timestamp where
  "Timestamp_max = ymd2ord 2262 4 11"

definition valid_ymd :: "int \<Rightarrow> int \<Rightarrow> int \<Rightarrow> bool" where
  "valid_ymd y m d =
     (1 \<le> m \<and> m \<le> 12 \<and> 1 \<le> d \<and> d \<le> days_in_month y m \<and>
      Timestamp_min \<le> ymd2ord y m d \<and> ymd2ord y m d \<le> Timestamp_max)"

definition is_digit :: "char \<Rightarrow> bool" where
  "is_digit c = (CHR ''0'' \<le> c \<and> c \<le> CHR ''9'')"

definition digit_val :: "char \<Rightarrow> int" where
  "digit_val c = int (of_char c) - 48"

definition int_of_digits :: "string \<Rightarrow> int" where
  "int_of_digits s = foldl (\<lambda>n c. 10 * n + digit_val c) 0 s"

text \<open>A field of a date string: between \<open>lo\<close> and \<open>hi\<close> characters, all of them digits.\<close>

definition digits :: "nat \<Rightarrow> nat \<Rightarrow> string \<Rightarrow> bool" where
  "digits lo hi f = (lo \<le> length f \<and> length f \<le> hi \<and> list_all is_digit f)"

text \<open>The part of a string before its first hyphen, and the part after it (if there is one).\<close>

definition before_hyphen :: "string \<Rightarrow> string" where
  "before_hyphen s = takeWhile (\<lambda>c. c \<noteq> CHR ''-'') s"

definition after_hyphen :: "string \<Rightarrow> string option" where
  "after_hyphen s =
     (case dropWhile (\<lambda>c. c \<noteq> CHR ''-'') s of [] \<Rightarrow> None | h # rest \<Rightarrow> Some rest)"

text \<open>The three fields of a string that the format \<^verbatim>\<open>%Y-%m-%d\<close> separates by hyphens.\<close>

definition date_fields :: "string \<Rightarrow> (string \<times> string \<times> string) option" where
  "date_fields s =
     (case after_hyphen s of
        None \<Rightarrow> None
      | Some r \<Rightarrow>
          (case after_hyphen r of
             None \<Rightarrow> None
           | Some d \<Rightarrow> Some (before_hyphen s, before_hyphen r, d)))"

text \<open>The strings that pandas reads as a missing date.\<close>

definition nat_strings :: "string list" where
  "nat_strings = [''NaT'', ''nat'', ''NAT'', ''nan'', ''NaN'', ''NAN'']"

section \<open>The helper functions of the wrangling cell\<close>

text \<open>
  \<^verbatim>\<open>parse_date(datestring)\<close>: \<^verbatim>\<open>pd.to_datetime(datestring, format="%Y-%m-%d")\<close>.
  The empty string and the strings for a missing date give \<^verbatim>\<open>NaT\<close> and no exception.
  The year takes four digits; the month and the day take one or two, so that
  \<^verbatim>\<open>'2021-1-5'\<close> is read as well as \<^verbatim>\<open>'2021-01-05'\<close>. A string of another form, a day
  that the calendar does not have, and a day outside the range of \<^verbatim>\<open>Timestamp\<close> raise.
  Only strings of digits and hyphens are read as dates here: on a string with white
  space or with a time of day the versions of pandas differ, and no statement below
  depends on one.
\<close>

definition parse_date :: "string \<Rightarrow> error + datetime" where
  "parse_date datestring =
     (if datestring = [] \<or> datestring \<in> set nat_strings then Inr NaT
      else case date_fields datestring of
             None \<Rightarrow> Inl ParseError
           | Some (y, m, d) \<Rightarrow>
               if digits 4 4 y \<and> digits 1 2 m \<and> digits 1 2 d \<and>
                  valid_ymd (int_of_digits y) (int_of_digits m) (int_of_digits d)
               then Inr (Timestamp (ymd2ord (int_of_digits y) (int_of_digits m) (int_of_digits d)))
               else Inl ParseError)"

text \<open>
  \<^verbatim>\<open>pd.date_range(start, end, freq='D')\<close>: every day from \<open>start\<close> to \<open>end\<close>, none
  when \<open>end\<close> is before \<open>start\<close>; \<^verbatim>\<open>NaT\<close> as a bound raises \<^verbatim>\<open>ValueError\<close>.
\<close>

fun date_range :: "datetime \<Rightarrow> datetime \<Rightarrow> error + timestamp list" where
  "date_range (Timestamp start) (Timestamp end) = Inr [start..end]"
| "date_range start end = Inl ValueError"

text \<open>
  \<^verbatim>\<open>initialize_dataframe(rawdata, column_array)\<close>. The list of date strings is a new
  list, sorted as Python sorts strings (by code point, a prefix first);
  \<^verbatim>\<open>dates[0]\<close> on the empty list raises \<^verbatim>\<open>IndexError\<close>. Only the first and the last
  string of the sorted list are parsed here.
\<close>

definition initialize_dataframe :: "entry list \<Rightarrow> string list \<Rightarrow> error + dataframe" where
  "initialize_dataframe rawdata column_array =
     (let dates = sort (map Date rawdata) in
      if dates = [] then Inl IndexError
      else case parse_date (hd dates) of
             Inl e \<Rightarrow> Inl e
           | Inr start \<Rightarrow>
               (case parse_date (last dates) of
                  Inl e \<Rightarrow> Inl e
                | Inr end \<Rightarrow>
                    (case date_range start end of
                       Inl e \<Rightarrow> Inl e
                     | Inr days \<Rightarrow>
                         Inr \<lparr>index = days, columns = column_array, cells = (\<lambda>k. NaN)\<rparr>)))"

text \<open>
  \<^verbatim>\<open>float(n)\<close> for a Python \<^verbatim>\<open>int\<close>: the nearest double, ties to the even one, and
  \<^verbatim>\<open>OverflowError\<close> when that is beyond the largest double. \<open>bitlen\<close> is
  \<^verbatim>\<open>int.bit_length\<close>.
\<close>

function bitlen :: "int \<Rightarrow> nat" where
  "bitlen n = (if n \<le> 0 then 0 else Suc (bitlen (n div 2)))"
  by pat_completeness auto
termination
  by (relation "measure nat") auto

declare bitlen.simps [simp del]

definition round_half_even :: "int \<Rightarrow> nat \<Rightarrow> int" where
  "round_half_even m e =
     (let q = m div 2 ^ e; r = m mod 2 ^ e; h = 2 ^ (e - 1)
      in if h < r \<or> (r = h \<and> odd q) then (q + 1) * 2 ^ e else q * 2 ^ e)"

definition nearest_double :: "int \<Rightarrow> int" where
  "nearest_double m = (if bitlen m \<le> 53 then m else round_half_even m (bitlen m - 53))"

definition float_of_int :: "int \<Rightarrow> error + pyfloat" where
  "float_of_int n =
     (let m = nearest_double \<bar>n\<bar>
      in if 2 ^ 1024 \<le> m then Inl OverflowError
         else Inr (Finite (if n < 0 then - real_of_int m else real_of_int m)))"

text \<open>\<^verbatim>\<open>float(x) if x != None else 0.0\<close> on the value \<open>x\<close> of a numeric field.\<close>

fun float_or_zero :: "number \<Rightarrow> error + pyfloat" where
  "float_or_zero NoData = Inr (Finite 0)"
| "float_or_zero (PyInt n) = float_of_int n"
| "float_or_zero (PyFloat x) = Inr x"

text \<open>
  \<^verbatim>\<open>float(entry[column]) if entry[column] != None else 0.0\<close>. A key that the dict
  lacks raises \<^verbatim>\<open>KeyError\<close>. The item \<^verbatim>\<open>'Date'\<close> is the date string; the expression
  is evaluated only after \<^verbatim>\<open>pd.to_datetime\<close> has read that string as a day, and
  \<^verbatim>\<open>float\<close> rejects such a string with \<^verbatim>\<open>ValueError\<close>.
\<close>

definition entry_value :: "entry \<Rightarrow> string \<Rightarrow> error + pyfloat" where
  "entry_value entry column =
     (if column = ''Date'' then Inl ValueError
      else case items entry column of
             None \<Rightarrow> Inl KeyError
           | Some x \<Rightarrow> float_or_zero x)"

text \<open>
  \<^verbatim>\<open>pd.isna(dataframe.loc[date, column])\<close> as the condition of an \<^verbatim>\<open>if\<close>, for a date
  that is a \<^verbatim>\<open>Timestamp\<close>. A label that is not in the index or not among the columns
  raises \<^verbatim>\<open>KeyError\<close>; a column label that occurs more than once selects a Series,
  whose truth value raises \<^verbatim>\<open>ValueError\<close>.
\<close>

definition loc_isna :: "dataframe \<Rightarrow> timestamp \<Rightarrow> string \<Rightarrow> error + bool" where
  "loc_isna dataframe date column =
     (if date \<notin> set (index dataframe) \<or> column \<notin> set (columns dataframe) then Inl KeyError
      else if count_list (columns dataframe) column \<noteq> 1 then Inl ValueError
      else Inr (cells dataframe (date, column) = NaN))"

text \<open>
  \<^verbatim>\<open>set_dataframe_value(dataframe, entry, column)\<close>; the DataFrame is returned updated.
  \<^verbatim>\<open>NaT\<close> is no label of the index: the lookup raises \<^verbatim>\<open>KeyError\<close>.
\<close>

definition set_dataframe_value :: "dataframe \<Rightarrow> entry \<Rightarrow> string \<Rightarrow> error + dataframe" where
  "set_dataframe_value dataframe entry column =
     (case parse_date (Date entry) of
        Inl e \<Rightarrow> Inl e
      | Inr NaT \<Rightarrow> Inl KeyError
      | Inr (Timestamp date) \<Rightarrow>
          (case loc_isna dataframe date column of
             Inl e \<Rightarrow> Inl e
           | Inr unset \<Rightarrow>
               if unset then
                 (case entry_value entry column of
                    Inl e \<Rightarrow> Inl e
                  | Inr val \<Rightarrow>
                      Inr (dataframe\<lparr>cells := (cells dataframe)((date, column) := val)\<rparr>))
               else Inr dataframe))"

section \<open>\<^verbatim>\<open>wrangle_data\<close>\<close>

text \<open>The inner loop of \<^verbatim>\<open>wrangle_data\<close>: one entry, every column in turn.\<close>

fun fill_columns :: "dataframe \<Rightarrow> entry \<Rightarrow> string list \<Rightarrow> error + dataframe" where
  "fill_columns df entry [] = Inr df"
| "fill_columns df entry (column # rest) =
     (case set_dataframe_value df entry column of
        Inl e \<Rightarrow> Inl e
      | Inr df' \<Rightarrow> fill_columns df' entry rest)"

text \<open>The outer loop: every entry of the raw data in turn.\<close>

fun fill_entries :: "dataframe \<Rightarrow> entry list \<Rightarrow> string list \<Rightarrow> error + dataframe" where
  "fill_entries df [] column_array = Inr df"
| "fill_entries df (entry # rest) column_array =
     (case fill_columns df entry column_array of
        Inl e \<Rightarrow> Inl e
      | Inr df' \<Rightarrow> fill_entries df' rest column_array)"

text \<open>
  \<^verbatim>\<open>df.fillna(value, inplace=True)\<close>: every cell of the table that holds \<^verbatim>\<open>NaN\<close> gets
  \<open>value\<close>.
\<close>

definition fillna :: "real \<Rightarrow> dataframe \<Rightarrow> dataframe" where
  "fillna v df =
     df\<lparr>cells := (\<lambda>k. if fst k \<in> set (index df) \<and> snd k \<in> set (columns df) \<and>
                          cells df k = NaN
                       then Finite v else cells df k)\<rparr>"

definition wrangle_data :: "entry list \<Rightarrow> string list \<Rightarrow> error + dataframe" where
  "wrangle_data rawdata column_array =
     (case initialize_dataframe rawdata column_array of
        Inl e \<Rightarrow> Inl e
      | Inr df \<Rightarrow>
          (case fill_entries df rawdata column_array of
             Inl e \<Rightarrow> Inl e
           | Inr df' \<Rightarrow> Inr (fillna 0 df')))"

section \<open>\<^verbatim>\<open>wrangle_data\<close> on a store of objects\<close>











section \<open>The refresh button\<close>

text \<open>The attributes of the \<^verbatim>\<open>ipywidgets\<close> button that the notebook sets.\<close>

record button =
  description :: string
  disabled :: bool
  button_style :: string
  tooltip :: string
  icon :: string

text \<open>
  The state that the callback works on: the two global tables, the button, and the
  value (the selected options) of the widget \<^verbatim>\<open>hospital_ventilator_options\<close>.
\<close>

record state =
  hospital_ventilator_df :: dataframe
  vaccine_cases_df :: dataframe
  apibutton :: button
  hospital_ventilator_options :: "string list"

definition hospital_ventilator_columns :: "string list" where
  "hospital_ventilator_columns =
     [''Hospital Admissions'', ''Occupied Ventilator Beds'', ''Daily Deaths'']"

definition vaccine_cases_columns :: "string list" where
  "vaccine_cases_columns = [''Daily Cases'', ''Daily Vaccines Administered'']"

definition apibutton_initial :: button where
  "apibutton_initial =
     \<lparr>description = ''REFRESH'', disabled = False, button_style = ''info'',
      tooltip = ''Update covid19 data'', icon = ''download''\<rparr>"

text \<open>
  The cells that run when the notebook is opened: both tables are wrangled from the
  cached file \<^verbatim>\<open>covid_data.json\<close>, the button and the widget are created.
\<close>

definition startup :: "entry list \<Rightarrow> error + state" where
  "startup covid_jsondata =
     (case wrangle_data covid_jsondata hospital_ventilator_columns of
        Inl e \<Rightarrow> Inl e
      | Inr df1 \<Rightarrow>
          (case wrangle_data covid_jsondata vaccine_cases_columns of
             Inl e \<Rightarrow> Inl e
           | Inr df2 \<Rightarrow>
               Inr \<lparr>hospital_ventilator_df = df1, vaccine_cases_df = df2,
                    apibutton = apibutton_initial,
                    hospital_ventilator_options = hospital_ventilator_columns\<rparr>))"

text \<open>
  \<^verbatim>\<open>refresh_graph()\<close>: the value of the widget is set to another selection and back, which
  redraws the graph.
\<close>

definition refresh_graph :: "state \<Rightarrow> state" where
  "refresh_graph st =
     (let current = hospital_ventilator_options st;
          other = (if current = take 3 hospital_ventilator_columns
                   then take 2 hospital_ventilator_columns
                   else take 3 hospital_ventilator_columns);
          st1 = st\<lparr>hospital_ventilator_options := other\<rparr>
      in st1\<lparr>hospital_ventilator_options := current\<rparr>)"

text \<open>The \<^verbatim>\<open>except\<close> branch of the callback.\<close>

definition show_unavailable :: "state \<Rightarrow> state" where
  "show_unavailable st =
     st\<lparr>apibutton := (apibutton st)\<lparr>disabled := True, icon := ''times'',
                                      description := ''UNAVAILABLE''\<rparr>\<rparr>"

text \<open>The end of the \<^verbatim>\<open>try\<close> branch.\<close>

definition show_refreshed :: "state \<Rightarrow> state" where
  "show_refreshed st =
     st\<lparr>apibutton := (apibutton st)\<lparr>icon := ''check'', disabled := True,
                                      description := ''REFRESHED''\<rparr>\<rparr>"

text \<open>
  \<^verbatim>\<open>api_button_callback(button)\<close>. The first argument is what
  \<^verbatim>\<open>access_api()['data']\<close> gives in this run: the records, or the exception raised.
  The statements of the \<^verbatim>\<open>try\<close> block run in the order of the source, so an
  assignment to a global made before an exception stays. The callback does not read the
  button.
\<close>

definition api_button_callback :: "error + entry list \<Rightarrow> state \<Rightarrow> state" where
  "api_button_callback api st =
     refresh_graph
       (case api of
          Inl e \<Rightarrow> show_unavailable st
        | Inr apidata \<Rightarrow>
            (case wrangle_data apidata hospital_ventilator_columns of
               Inl e \<Rightarrow> show_unavailable st
             | Inr df1 \<Rightarrow>
                 (let st1 = st\<lparr>hospital_ventilator_df := df1\<rparr> in
                  case wrangle_data apidata vaccine_cases_columns of
                    Inl e \<Rightarrow> show_unavailable st1
                  | Inr df2 \<Rightarrow> show_refreshed (st1\<lparr>vaccine_cases_df := df2\<rparr>))))"

text \<open>
  \<^verbatim>\<open>apibutton.on_click(api_button_callback)\<close> registers the callback for every click
  message that reaches the button: the callback runs once for each, with what the API
  gives then. Neither the registration nor the callback looks at \<^verbatim>\<open>disabled\<close>; that
  attribute only tells the page not to let the user click.
\<close>

fun on_click :: "(error + entry list) list \<Rightarrow> state \<Rightarrow> state" where
  "on_click [] st = st"
| "on_click (api # rest) st = on_click rest (api_button_callback api st)"

section \<open>Notions of the specification\<close>

text \<open>
  The shape \<^verbatim>\<open>YYYY-MM-DD\<close> of the data model: four digits of year, two of month, two
  of day, hyphens between them; and the fields of such a string.
\<close>

definition date_shape :: "string \<Rightarrow> bool" where
  "date_shape s =
     (length s = 10 \<and> s ! 4 = CHR ''-'' \<and> s ! 7 = CHR ''-'' \<and>
      list_all is_digit (take 4 s) \<and>
      list_all is_digit (take 2 (drop 5 s)) \<and>
      list_all is_digit (drop 8 s))"

definition year_of :: "string \<Rightarrow> int" where
  "year_of s = int_of_digits (take 4 s)"

definition month_of :: "string \<Rightarrow> int" where
  "month_of s = int_of_digits (take 2 (drop 5 s))"

definition day_of :: "string \<Rightarrow> int" where
  "day_of s = int_of_digits (drop 8 s)"

text \<open>A string of that shape that names a day of the calendar, and the day it names.\<close>

definition iso_date :: "string \<Rightarrow> bool" where
  "iso_date s = (date_shape s \<and> valid_ymd (year_of s) (month_of s) (day_of s))"

definition iso_day :: "string \<Rightarrow> timestamp" where
  "iso_day s = ymd2ord (year_of s) (month_of s) (day_of s)"

text \<open>
  A record supplies a value for a cell when its date is the date of the cell and the
  value that \<^verbatim>\<open>set_dataframe_value\<close> would write is not \<^verbatim>\<open>nan\<close>.
\<close>

definition written_value :: "entry \<Rightarrow> string \<Rightarrow> pyfloat" where
  "written_value entry column =
     (case entry_value entry column of Inl e \<Rightarrow> NaN | Inr val \<Rightarrow> val)"

definition supplies :: "timestamp \<Rightarrow> string \<Rightarrow> entry \<Rightarrow> bool" where
  "supplies date column entry =
     (parse_date (Date entry) = Inr (Timestamp date) \<and> written_value entry column \<noteq> NaN)"

section \<open>Concrete inputs\<close>

text \<open>Records and a state on which the statements below are evaluated.\<close>

definition entry_A :: "string \<Rightarrow> number \<Rightarrow> entry" where
  "entry_A d v = \<lparr>Date = d, items = [''A'' \<mapsto> v]\<rparr>"

definition entry_full :: "string \<Rightarrow> int \<Rightarrow> entry" where
  "entry_full d x =
     \<lparr>Date = d,
      items = [''Hospital Admissions'' \<mapsto> PyInt x, ''Occupied Ventilator Beds'' \<mapsto> PyInt x,
               ''Daily Deaths'' \<mapsto> NoData, ''Daily Vaccines Administered'' \<mapsto> PyInt x,
               ''Daily Cases'' \<mapsto> PyInt x]\<rparr>"

definition entry_no_cases :: "string \<Rightarrow> int \<Rightarrow> entry" where
  "entry_no_cases d x =
     \<lparr>Date = d,
      items = [''Hospital Admissions'' \<mapsto> PyInt x, ''Occupied Ventilator Beds'' \<mapsto> PyInt x,
               ''Daily Deaths'' \<mapsto> PyInt x, ''Daily Vaccines Administered'' \<mapsto> PyInt x]\<rparr>"

definition example_df :: "string list \<Rightarrow> dataframe" where
  "example_df cols =
     \<lparr>index = [737791], columns = cols,
      cells = (\<lambda>k. if fst k = 737791 \<and> snd k \<in> set cols then Finite 1 else NaN)\<rparr>"

definition example_state :: state where
  "example_state =
     \<lparr>hospital_ventilator_df = example_df hospital_ventilator_columns,
      vaccine_cases_df = example_df vaccine_cases_columns,
      apibutton = apibutton_initial,
      hospital_ventilator_options = hospital_ventilator_columns\<rparr>"


section \<open>Dates: for the shape \<^verbatim>\<open>YYYY-MM-DD\<close> the order of the strings is the order of the days\<close>

lemma div_step:
  fixes y k :: int
  assumes "0 < k"
  shows "y div k = (y - 1) div k + (if y mod k = 0 then 1 else 0)"
proof -
  define q where "q = y div k"
  define r where "r = y mod k"
  have y: "y = k * q + r" by (simp add: q_def r_def)
  have r: "0 \<le> r" "r < k" using assms by (simp_all add: r_def)
  show ?thesis
  proof (cases "r = 0")
    case True
    have e: "y - 1 = k * (q - 1) + (k - 1)" using y True by (simp add: algebra_simps)
    have "(y - 1) div k = q - 1"
      by (rule int_div_pos_eq [OF e]) (use assms in simp_all)
    with True show ?thesis by (simp add: q_def [symmetric] r_def [symmetric])
  next
    case False
    have e: "y - 1 = k * q + (r - 1)" using y by simp
    have "(y - 1) div k = q"
      by (rule int_div_pos_eq [OF e]) (use r False in simp_all)
    with False show ?thesis by (simp add: q_def [symmetric] r_def [symmetric])
  qed
qed

lemma div_step_diff:
  fixes y k :: int
  assumes "0 < k"
  shows "y div k - (y - 1) div k = (if y mod k = 0 then 1 else 0)"
  using div_step [OF assms, of y] by simp

lemma mod_100_4: "(y::int) mod 100 = 0 \<Longrightarrow> y mod 4 = 0"
proof -
  assume a: "y mod 100 = 0"
  have "(4::int) dvd 100" by simp
  moreover from a have "100 dvd y" by (simp add: mod_eq_0_iff_dvd)
  ultimately have "4 dvd y" by (rule dvd_trans)
  then show ?thesis by (simp add: mod_eq_0_iff_dvd)
qed

lemma mod_400_100: "(y::int) mod 400 = 0 \<Longrightarrow> y mod 100 = 0"
proof -
  assume a: "y mod 400 = 0"
  have "(100::int) dvd 400" by simp
  moreover from a have "400 dvd y" by (simp add: mod_eq_0_iff_dvd)
  ultimately have "100 dvd y" by (rule dvd_trans)
  then show ?thesis by (simp add: mod_eq_0_iff_dvd)
qed

lemma days_before_year_diff:
  "days_before_year (y + 1) =
   days_before_year y + 365 + (y div 4 - (y - 1) div 4) - (y div 100 - (y - 1) div 100)
     + (y div 400 - (y - 1) div 400)"
  by (simp add: days_before_year_def)

lemma leap_count:
  fixes a :: int
  assumes "P100 \<Longrightarrow> P4" "P400 \<Longrightarrow> P100"
  shows "a + 365 + (if P4 then 1 else 0) - (if P100 then 1 else 0) + (if P400 then 1 else 0) =
         a + (if P4 \<and> (\<not> P100 \<or> P400) then 366 else 365)"
proof (cases P400)
  case True
  with assms have "P100" "P4" by simp_all
  with True show ?thesis by simp
next
  case n400: False
  show ?thesis
  proof (cases P100)
    case True
    with assms have "P4" by simp
    with True n400 show ?thesis by simp
  next
    case False
    with n400 show ?thesis by simp
  qed
qed

lemma days_before_year_Suc:
  "days_before_year (y + 1) = days_before_year y + (if is_leap y then 366 else 365)"
proof -
  have d4: "y div 4 - (y - 1) div 4 = (if y mod 4 = 0 then 1 else 0)"
    by (rule div_step_diff) simp
  have d100: "y div 100 - (y - 1) div 100 = (if y mod 100 = 0 then 1 else 0)"
    by (rule div_step_diff) simp
  have d400: "y div 400 - (y - 1) div 400 = (if y mod 400 = 0 then 1 else 0)"
    by (rule div_step_diff) simp
  show ?thesis
    unfolding days_before_year_diff d4 d100 d400 is_leap_def
    by (rule leap_count) (erule mod_100_4, erule mod_400_100)
qed

lemma days_before_year_mono_nat:
  "days_before_year y \<le> days_before_year (y + int n)"
proof (induction n)
  case 0
  then show ?case by simp
next
  case (Suc n)
  have "days_before_year (y + int (Suc n)) = days_before_year ((y + int n) + 1)"
    by (simp add: algebra_simps)
  also have "\<dots> \<ge> days_before_year (y + int n)"
    by (simp add: days_before_year_Suc)
  finally show ?case using Suc.IH by linarith
qed

lemma days_before_year_mono: "y \<le> y' \<Longrightarrow> days_before_year y \<le> days_before_year y'"
  using days_before_year_mono_nat [of y "nat (y' - y)"] by simp

lemma days_in_month_pos: "28 \<le> days_in_month y m"
  by (simp add: days_in_month_def)

lemma days_before_month_nonneg: "0 \<le> days_before_month y m"
  unfolding days_before_month_def
  by (rule sum_list_nonneg) (use days_in_month_pos in \<open>auto intro: order_trans [of 0 28]\<close>)

lemma days_before_month_less:
  assumes "1 \<le> m" "m < m'"
  shows "days_before_month y m + days_in_month y m \<le> days_before_month y m'"
proof -
  have "[1..m' - 1] = [1..m - 1] @ m # [m + 1..m' - 1]"
    using assms by (intro upto_split3) auto
  moreover have "0 \<le> sum_list (map (days_in_month y) [m + 1..m' - 1])"
    by (rule sum_list_nonneg) (use days_in_month_pos in \<open>auto intro: order_trans [of 0 28]\<close>)
  ultimately show ?thesis by (simp add: days_before_month_def)
qed

lemma days_before_month_13:
  "days_before_month y 13 = (if is_leap y then 366 else 365)"
  by (simp add: days_before_month_def upto.simps days_in_month_def)

lemma day_of_year_bound:
  assumes "1 \<le> m" "m \<le> 12" "d \<le> days_in_month y m"
  shows "days_before_month y m + d \<le> (if is_leap y then 366 else 365)"
proof -
  from assms have "days_before_month y m + days_in_month y m \<le> days_before_month y 13"
    by (intro days_before_month_less) auto
  with assms(3) show ?thesis by (auto simp: days_before_month_13)
qed

lemma ymd2ord_strict_mono:
  assumes v: "1 \<le> m" "m \<le> 12" "1 \<le> d" "d \<le> days_in_month y m"
    and v': "1 \<le> m'" "m' \<le> 12" "1 \<le> d'" "d' \<le> days_in_month y' m'"
    and lt: "y < y' \<or> (y = y' \<and> (m < m' \<or> (m = m' \<and> d < d')))"
  shows "ymd2ord y m d < ymd2ord y' m' d'"
proof -
  consider (year) "y < y'" | (month) "y = y'" "m < m'" | (day) "y = y'" "m = m'" "d < d'"
    using lt by blast
  then show ?thesis
  proof cases
    case year
    have "ymd2ord y m d \<le> days_before_year y + (if is_leap y then 366 else 365)"
      using day_of_year_bound [OF v(1,2,4)] by (simp add: ymd2ord_def)
    also have "\<dots> = days_before_year (y + 1)" by (simp add: days_before_year_Suc)
    also have "\<dots> \<le> days_before_year y'" using year by (intro days_before_year_mono) simp
    also have "\<dots> < ymd2ord y' m' d'"
      using days_before_month_nonneg [of y' m'] v'(3) by (simp add: ymd2ord_def)
    finally show ?thesis .
  next
    case month
    from days_before_month_less [OF v(1) month(2), of y] v(4) v'(3) month(1)
    show ?thesis by (simp add: ymd2ord_def)
  next
    case day
    then show ?thesis by (simp add: ymd2ord_def)
  qed
qed

lemma digit_val_bounds: "is_digit c \<Longrightarrow> 0 \<le> digit_val c \<and> digit_val c \<le> 9"
  by (simp add: is_digit_def digit_val_def less_eq_char_def)

lemma digit_val_less: "(digit_val c < digit_val c') = (c < c')"
  by (simp add: digit_val_def less_char_def)

lemma foldl_digits_bounds:
  "list_all is_digit xs \<Longrightarrow>
   n * 10 ^ length xs \<le> foldl (\<lambda>n c. 10 * n + digit_val c) n xs \<and>
   foldl (\<lambda>n c. 10 * n + digit_val c) n xs < (n + 1) * 10 ^ length xs"
proof (induction xs arbitrary: n)
  case Nil
  then show ?case by simp
next
  case (Cons c xs)
  let ?P = "(10::int) ^ length xs"
  let ?v = "digit_val c"
  from Cons.prems have v: "0 \<le> ?v" "?v \<le> 9" and rest: "list_all is_digit xs"
    using digit_val_bounds [of c] by simp_all
  have P: "0 \<le> ?P" by simp
  have lo: "0 \<le> ?v * ?P" using v(1) P by (rule mult_nonneg_nonneg)
  have hi: "(?v + 1) * ?P \<le> 10 * ?P" using v(2) P by (intro mult_right_mono) simp_all
  from Cons.IH [OF rest, of "10 * n + ?v"]
  have IH: "(10 * n + ?v) * ?P \<le> foldl (\<lambda>n c. 10 * n + digit_val c) (10 * n + ?v) xs"
    "foldl (\<lambda>n c. 10 * n + digit_val c) (10 * n + ?v) xs < (10 * n + ?v + 1) * ?P"
    by simp_all
  have e1: "(10 * n + ?v) * ?P = 10 * (n * ?P) + ?v * ?P" by (simp add: algebra_simps)
  have e2: "(10 * n + ?v + 1) * ?P = 10 * (n * ?P) + (?v + 1) * ?P" by (simp add: algebra_simps)
  have e3: "n * 10 ^ length (c # xs) = 10 * (n * ?P)" by simp
  have e4: "(n + 1) * 10 ^ length (c # xs) = 10 * (n * ?P) + 10 * ?P" by (simp add: algebra_simps)
  have "10 * (n * ?P) \<le> foldl (\<lambda>n c. 10 * n + digit_val c) (10 * n + ?v) xs"
    using IH(1) lo unfolding e1 by linarith
  moreover have "foldl (\<lambda>n c. 10 * n + digit_val c) (10 * n + ?v) xs < 10 * (n * ?P) + 10 * ?P"
    using IH(2) hi unfolding e2 by linarith
  ultimately show ?case unfolding e3 e4 by simp
qed

lemma foldl_digits_less:
  "length xs = length ys \<Longrightarrow> list_all is_digit xs \<Longrightarrow> list_all is_digit ys \<Longrightarrow> xs < ys \<Longrightarrow>
   foldl (\<lambda>n c. 10 * n + digit_val c) n xs < foldl (\<lambda>n c. 10 * n + digit_val c) n ys"
proof (induction xs ys arbitrary: n rule: list_induct2)
  case Nil
  then show ?case by simp
next
  case (Cons x xs y ys)
  from Cons.prems have dx: "list_all is_digit xs" and dy: "list_all is_digit ys"
    and cmp: "x < y \<or> x = y \<and> xs < ys" by simp_all
  from cmp show ?case
  proof
    assume "x < y"
    then have v: "digit_val x + 1 \<le> digit_val y" using digit_val_less [of x y] by simp
    let ?P = "(10::int) ^ length xs"
    have "foldl (\<lambda>n c. 10 * n + digit_val c) (10 * n + digit_val x) xs
          < (10 * n + digit_val x + 1) * ?P"
      using foldl_digits_bounds [OF dx] by simp
    also have "\<dots> \<le> (10 * n + digit_val y) * ?P"
      using v by (intro mult_right_mono) simp_all
    also have "\<dots> \<le> foldl (\<lambda>n c. 10 * n + digit_val c) (10 * n + digit_val y) ys"
      using foldl_digits_bounds [OF dy, of "10 * n + digit_val y"] Cons.hyps by simp
    finally show ?thesis by simp
  next
    assume "x = y \<and> xs < ys"
    with Cons.IH [OF dx dy, of "10 * n + digit_val y"] show ?thesis by simp
  qed
qed

lemma int_of_digits_less:
  "length xs = length ys \<Longrightarrow> list_all is_digit xs \<Longrightarrow> list_all is_digit ys \<Longrightarrow> xs < ys \<Longrightarrow>
   int_of_digits xs < int_of_digits ys"
  unfolding int_of_digits_def by (rule foldl_digits_less)

lemma lex_append_less:
  "length a = length b \<Longrightarrow> (a @ x < b @ y) = (a < b \<or> a = b \<and> x < y)"
  by (induction a b rule: list_induct2) auto

lemma date_shape_split:
  assumes "date_shape s"
  shows "s = take 4 s @ CHR ''-'' # take 2 (drop 5 s) @ CHR ''-'' # drop 8 s"
proof -
  from assms have len: "length s = 10" and h4: "s ! 4 = CHR ''-''" and h7: "s ! 7 = CHR ''-''"
    by (simp_all add: date_shape_def)
  have a: "CHR ''-'' # drop 8 s = drop 7 s"
    using len h7 Cons_nth_drop_Suc [of 7 s] by simp
  have b: "take 2 (drop 5 s) @ drop 7 s = drop 5 s"
    using append_take_drop_id [of 2 "drop 5 s"] by simp
  have c: "CHR ''-'' # drop 5 s = drop 4 s"
    using len h4 Cons_nth_drop_Suc [of 4 s] by simp
  have "take 4 s @ CHR ''-'' # take 2 (drop 5 s) @ CHR ''-'' # drop 8 s = take 4 s @ drop 4 s"
    by (simp only: a b c)
  then show ?thesis by simp
qed

lemma date_shape_less:
  assumes s: "date_shape s" and t: "date_shape t" and lt: "s < t"
  shows "year_of s < year_of t \<or>
         (year_of s = year_of t \<and>
          (month_of s < month_of t \<or> (month_of s = month_of t \<and> day_of s < day_of t)))"
proof -
  let ?Y = "\<lambda>s. take 4 s" and ?M = "\<lambda>s. take 2 (drop 5 s)" and ?D = "\<lambda>s. drop 8 s"
  from s have ls: "length (?Y s) = 4" "length (?M s) = 2" "length (?D s) = 2"
    and ds: "list_all is_digit (?Y s)" "list_all is_digit (?M s)" "list_all is_digit (?D s)"
    by (simp_all add: date_shape_def)
  from t have lt': "length (?Y t) = 4" "length (?M t) = 2" "length (?D t) = 2"
    and dt: "list_all is_digit (?Y t)" "list_all is_digit (?M t)" "list_all is_digit (?D t)"
    by (simp_all add: date_shape_def)
  have "?Y s @ CHR ''-'' # ?M s @ CHR ''-'' # ?D s < ?Y t @ CHR ''-'' # ?M t @ CHR ''-'' # ?D t"
    using lt date_shape_split [OF s] date_shape_split [OF t] by simp
  then have "?Y s < ?Y t \<or> (?Y s = ?Y t \<and> ?M s @ CHR ''-'' # ?D s < ?M t @ CHR ''-'' # ?D t)"
    using ls(1) lt'(1) by (simp add: lex_append_less)
  then have cases: "?Y s < ?Y t \<or> (?Y s = ?Y t \<and> (?M s < ?M t \<or> (?M s = ?M t \<and> ?D s < ?D t)))"
    using ls(2) lt'(2) by (simp add: lex_append_less)
  have Y: "?Y s < ?Y t \<Longrightarrow> year_of s < year_of t"
    unfolding year_of_def using ls(1) lt'(1) ds(1) dt(1) by (intro int_of_digits_less) simp_all
  have M: "?M s < ?M t \<Longrightarrow> month_of s < month_of t"
    unfolding month_of_def using ls(2) lt'(2) ds(2) dt(2) by (intro int_of_digits_less) simp_all
  have D: "?D s < ?D t \<Longrightarrow> day_of s < day_of t"
    unfolding day_of_def using ls(3) lt'(3) ds(3) dt(3) by (intro int_of_digits_less) simp_all
  have Ye: "?Y s = ?Y t \<Longrightarrow> year_of s = year_of t" by (simp add: year_of_def)
  have Me: "?M s = ?M t \<Longrightarrow> month_of s = month_of t" by (simp add: month_of_def)
  from cases Y M D Ye Me show ?thesis by blast
qed

lemma iso_day_strict_mono:
  assumes "iso_date s" "iso_date t" "s < t"
  shows "iso_day s < iso_day t"
proof -
  from assms(1) have s: "date_shape s"
    and vs: "valid_ymd (year_of s) (month_of s) (day_of s)" by (simp_all add: iso_date_def)
  from assms(2) have t: "date_shape t"
    and vt: "valid_ymd (year_of t) (month_of t) (day_of t)" by (simp_all add: iso_date_def)
  from vs have 1: "1 \<le> month_of s" "month_of s \<le> 12" "1 \<le> day_of s"
    "day_of s \<le> days_in_month (year_of s) (month_of s)" by (simp_all add: valid_ymd_def)
  from vt have 2: "1 \<le> month_of t" "month_of t \<le> 12" "1 \<le> day_of t"
    "day_of t \<le> days_in_month (year_of t) (month_of t)" by (simp_all add: valid_ymd_def)
  show ?thesis unfolding iso_day_def
    by (rule ymd2ord_strict_mono [OF 1 2 date_shape_less [OF s t assms(3)]])
qed

lemma iso_day_mono:
  assumes "iso_date s" "iso_date t" "s \<le> t"
  shows "iso_day s \<le> iso_day t"
proof (cases "s = t")
  case True
  then show ?thesis by simp
next
  case False
  with assms(3) have "s < t" by simp
  from iso_day_strict_mono [OF assms(1,2) this] show ?thesis by simp
qed

lemma sorted_hd_least:
  fixes ys :: "'a::linorder list"
  shows "sorted ys \<Longrightarrow> ys \<noteq> [] \<Longrightarrow> hd ys \<in> set ys \<and> (\<forall>x\<in>set ys. hd ys \<le> x)"
  by (cases ys) auto

lemma sorted_last_greatest:
  fixes ys :: "'a::linorder list"
  shows "sorted ys \<Longrightarrow> ys \<noteq> [] \<Longrightarrow> last ys \<in> set ys \<and> (\<forall>x\<in>set ys. x \<le> last ys)"
  by (cases ys rule: rev_cases) (auto simp: sorted_append)

lemma sort_Nil_iff:
  fixes xs :: "'a::linorder list"
  shows "(sort xs = []) = (xs = [])"
  by (metis length_sort length_0_conv)

lemma hd_sort_least:
  fixes xs :: "'a::linorder list"
  assumes "xs \<noteq> []"
  shows "hd (sort xs) \<in> set xs \<and> (\<forall>x\<in>set xs. hd (sort xs) \<le> x)"
  using sorted_hd_least [of "sort xs"] assms by (simp add: sort_Nil_iff)

lemma last_sort_greatest:
  fixes xs :: "'a::linorder list"
  assumes "xs \<noteq> []"
  shows "last (sort xs) \<in> set xs \<and> (\<forall>x\<in>set xs. x \<le> last (sort xs))"
  using sorted_last_greatest [of "sort xs"] assms by (simp add: sort_Nil_iff)

lemma is_digit_not_hyphen: "is_digit c \<Longrightarrow> c \<noteq> CHR ''-''"
  by (auto simp: is_digit_def less_eq_char_def)

lemma before_hyphen_append:
  "list_all is_digit f \<Longrightarrow> before_hyphen (f @ CHR ''-'' # rest) = f"
  by (simp add: before_hyphen_def takeWhile_append2 list_all_iff is_digit_not_hyphen)

lemma after_hyphen_append:
  "list_all is_digit f \<Longrightarrow> after_hyphen (f @ CHR ''-'' # rest) = Some rest"
  by (simp add: after_hyphen_def dropWhile_append2 list_all_iff is_digit_not_hyphen)

lemma date_fields_iso:
  assumes "date_shape s"
  shows "date_fields s = Some (take 4 s, take 2 (drop 5 s), drop 8 s)"
proof -
  let ?Y = "take 4 s" and ?M = "take 2 (drop 5 s)" and ?D = "drop 8 s"
  from assms have d: "list_all is_digit ?Y" "list_all is_digit ?M"
    by (simp_all add: date_shape_def)
  have s: "s = ?Y @ CHR ''-'' # (?M @ CHR ''-'' # ?D)" by (rule date_shape_split [OF assms])
  have 1: "after_hyphen s = Some (?M @ CHR ''-'' # ?D)"
    using after_hyphen_append [OF d(1), of "?M @ CHR ''-'' # ?D"] s by simp
  have 2: "before_hyphen s = ?Y"
    using before_hyphen_append [OF d(1), of "?M @ CHR ''-'' # ?D"] s by simp
  have 3: "after_hyphen (?M @ CHR ''-'' # ?D) = Some ?D" by (rule after_hyphen_append [OF d(2)])
  have 4: "before_hyphen (?M @ CHR ''-'' # ?D) = ?M" by (rule before_hyphen_append [OF d(2)])
  show ?thesis unfolding date_fields_def 1 2 by (simp add: 3 4)
qed

lemma parse_date_iso:
  assumes "iso_date s"
  shows "parse_date s = Inr (Timestamp (iso_day s))"
proof -
  from assms have sh: "date_shape s" and v: "valid_ymd (year_of s) (month_of s) (day_of s)"
    by (simp_all add: iso_date_def)
  from sh have len: "length s = 10" by (simp add: date_shape_def)
  then have ne: "s \<noteq> []" by auto
  have nn: "s \<notin> set nat_strings" using len by (auto simp: nat_strings_def)
  from sh len have dg: "digits 4 4 (take 4 s)" "digits 1 2 (take 2 (drop 5 s))"
    "digits 1 2 (drop 8 s)"
    by (simp_all add: digits_def date_shape_def)
  from ne nn dg v show ?thesis
    by (simp add: parse_date_def date_fields_iso [OF sh] iso_day_def year_of_def month_of_def
        day_of_def)
qed

section \<open>Which errors the functions raise\<close>

lemma parse_date_error: "parse_date s = Inl e \<Longrightarrow> e = ParseError"
  by (auto simp: parse_date_def split: if_splits option.splits prod.splits)

lemma float_or_zero_error: "float_or_zero x = Inl e \<Longrightarrow> e = OverflowError"
  by (cases x) (auto simp: float_of_int_def Let_def split: if_splits)

lemma entry_value_error:
  "entry_value entry column = Inl e \<Longrightarrow> e = KeyError \<or> e = ValueError \<or> e = OverflowError"
  by (auto simp: entry_value_def split: if_splits option.splits dest: float_or_zero_error)

lemma loc_isna_error: "loc_isna df date column = Inl e \<Longrightarrow> e = KeyError \<or> e = ValueError"
  by (auto simp: loc_isna_def split: if_splits)

lemma set_dataframe_value_error:
  "set_dataframe_value df entry column = Inl e \<Longrightarrow> e \<noteq> IndexError"
  by (auto simp: set_dataframe_value_def split: sum.splits if_splits datetime.splits
           dest: parse_date_error entry_value_error loc_isna_error)

lemma fill_columns_error: "fill_columns df entry cs = Inl e \<Longrightarrow> e \<noteq> IndexError"
proof (induction cs arbitrary: df)
  case Nil
  then show ?case by simp
next
  case (Cons c cs)
  then show ?case
    by (cases "set_dataframe_value df entry c") (auto dest: set_dataframe_value_error)
qed

lemma fill_entries_error: "fill_entries df es cs = Inl e \<Longrightarrow> e \<noteq> IndexError"
proof (induction es arbitrary: df)
  case Nil
  then show ?case by simp
next
  case (Cons x es)
  then show ?case
    by (cases "fill_columns df x cs") (auto dest: fill_columns_error)
qed

lemma sort_dates_Nil: "(sort (map Date rawdata) = []) = (rawdata = [])"
  by (simp add: sort_Nil_iff)

lemma date_range_error: "date_range a b = Inl e \<Longrightarrow> e = ValueError"
  by (cases "(a, b)" rule: date_range.cases) auto

lemma initialize_dataframe_IndexError:
  "(initialize_dataframe rawdata column_array = Inl IndexError) = (rawdata = [])"
  by (auto simp: initialize_dataframe_def Let_def sort_dates_Nil
           split: sum.splits dest: parse_date_error date_range_error)

section \<open>What the loops of \<^verbatim>\<open>wrangle_data\<close> leave in the table\<close>

lemma written_value_Inr: "entry_value e c = Inr v \<Longrightarrow> written_value e c = v"
  by (simp add: written_value_def)

lemma written_value_not_NaN:
  "written_value e c \<noteq> NaN \<Longrightarrow> entry_value e c = Inr (written_value e c)"
  by (cases "entry_value e c") (simp_all add: written_value_def)

lemma entry_value_Inr: "entry_value e c = Inr v \<Longrightarrow> c \<noteq> ''Date'' \<and> items e c \<noteq> None"
  by (auto simp: entry_value_def split: if_splits option.splits)

lemma set_dataframe_value_checks:
  "set_dataframe_value df e c = Inr df' \<Longrightarrow>
   (\<exists>d. parse_date (Date e) = Inr (Timestamp d) \<and> d \<in> set (index df)) \<and>
   count_list (columns df) c = 1"
  by (auto simp: set_dataframe_value_def loc_isna_def
      split: sum.splits if_splits datetime.splits)

lemma set_dataframe_value_frame:
  "set_dataframe_value df e c = Inr df' \<Longrightarrow> index df' = index df \<and> columns df' = columns df"
  by (auto simp: set_dataframe_value_def loc_isna_def
      split: sum.splits if_splits datetime.splits)

lemma set_dataframe_value_set:
  "set_dataframe_value df e c = Inr df' \<Longrightarrow> parse_date (Date e) = Inr (Timestamp d) \<Longrightarrow>
   cells df (d, c) \<noteq> NaN \<Longrightarrow> df' = df"
  by (auto simp: set_dataframe_value_def loc_isna_def split: sum.splits if_splits)

lemma set_dataframe_value_unset:
  "set_dataframe_value df e c = Inr df' \<Longrightarrow> parse_date (Date e) = Inr (Timestamp d) \<Longrightarrow>
   cells df (d, c) = NaN \<Longrightarrow>
   entry_value e c = Inr (written_value e c) \<and>
   cells df' = (cells df)((d, c) := written_value e c)"
  by (auto simp: set_dataframe_value_def loc_isna_def written_value_def
      split: sum.splits if_splits)

lemma set_dataframe_value_cells:
  assumes "set_dataframe_value df e c = Inr df'"
  shows "cells df' (d, a) =
     (if cells df (d, a) = NaN \<and> a = c \<and> parse_date (Date e) = Inr (Timestamp d)
      then written_value e c else cells df (d, a))"
proof -
  from set_dataframe_value_checks [OF assms] obtain d0
    where d0: "parse_date (Date e) = Inr (Timestamp d0)" by blast
  show ?thesis
  proof (cases "cells df (d0, c) = NaN")
    case True
    from set_dataframe_value_unset [OF assms d0 True] d0 True show ?thesis by auto
  next
    case False
    from set_dataframe_value_set [OF assms d0 False] d0 False show ?thesis by auto
  qed
qed

lemma fill_columns_frame:
  "fill_columns df e cs = Inr df' \<Longrightarrow> index df' = index df \<and> columns df' = columns df"
proof (induction cs arbitrary: df)
  case Nil
  then show ?case by simp
next
  case (Cons c cs)
  from Cons.prems obtain df1 where s: "set_dataframe_value df e c = Inr df1"
    and r: "fill_columns df1 e cs = Inr df'"
    by (auto split: sum.splits)
  from Cons.IH [OF r] set_dataframe_value_frame [OF s] show ?case by simp
qed

lemma fill_columns_present:
  "fill_columns df e cs = Inr df' \<Longrightarrow> c \<in> set cs \<Longrightarrow>
   parse_date (Date e) = Inr (Timestamp d) \<Longrightarrow> cells df (d, c) = NaN \<Longrightarrow>
   entry_value e c = Inr (written_value e c)"
proof (induction cs arbitrary: df)
  case Nil
  then show ?case by simp
next
  case (Cons a cs)
  from Cons.prems(1) obtain df1 where s: "set_dataframe_value df e a = Inr df1"
    and r: "fill_columns df1 e cs = Inr df'"
    by (auto split: sum.splits)
  show ?case
  proof (cases "a = c")
    case True
    with set_dataframe_value_unset [OF s Cons.prems(3)] Cons.prems(4) show ?thesis
      by simp
  next
    case False
    with Cons.prems(2) have c: "c \<in> set cs" by simp
    from set_dataframe_value_cells [OF s, of d c] False Cons.prems(4)
    have "cells df1 (d, c) = NaN" by simp
    from Cons.IH [OF r c Cons.prems(3) this] show ?thesis .
  qed
qed

lemma fill_columns_cells:
  "fill_columns df e cs = Inr df' \<Longrightarrow>
   cells df' (d, c) =
     (if cells df (d, c) = NaN \<and> c \<in> set cs \<and> parse_date (Date e) = Inr (Timestamp d)
      then written_value e c else cells df (d, c))"
proof (induction cs arbitrary: df)
  case Nil
  then show ?case by simp
next
  case (Cons a cs)
  from Cons.prems obtain df1 where s: "set_dataframe_value df e a = Inr df1"
    and r: "fill_columns df1 e cs = Inr df'"
    by (auto split: sum.splits)
  note step = set_dataframe_value_cells [OF s, of d c]
  note IH = Cons.IH [OF r]
  show ?case
  proof (cases "cells df (d, c) = NaN \<and> parse_date (Date e) = Inr (Timestamp d)")
    case False
    with step have "cells df1 (d, c) = cells df (d, c)" by auto
    with IH False show ?thesis by auto
  next
    case cond: True
    show ?thesis
    proof (cases "a = c")
      case True
      with step cond have "cells df1 (d, c) = written_value e c" by simp
      with IH cond True show ?thesis by simp
    next
      case False
      with step have "cells df1 (d, c) = cells df (d, c)" by simp
      with IH cond False show ?thesis by simp
    qed
  qed
qed

lemma fill_columns_checks:
  "fill_columns df e cs = Inr df' \<Longrightarrow> c \<in> set cs \<Longrightarrow>
   (\<exists>d. parse_date (Date e) = Inr (Timestamp d) \<and> d \<in> set (index df)) \<and>
   count_list (columns df) c = 1"
proof (induction cs arbitrary: df)
  case Nil
  then show ?case by simp
next
  case (Cons a cs)
  from Cons.prems(1) obtain df1 where s: "set_dataframe_value df e a = Inr df1"
    and r: "fill_columns df1 e cs = Inr df'"
    by (auto split: sum.splits)
  show ?case
  proof (cases "a = c")
    case True
    with set_dataframe_value_checks [OF s] show ?thesis by simp
  next
    case False
    with Cons.prems(2) have c: "c \<in> set cs" by simp
    from Cons.IH [OF r c] set_dataframe_value_frame [OF s] show ?thesis by simp
  qed
qed

lemma fill_entries_frame:
  "fill_entries df es cs = Inr df' \<Longrightarrow> index df' = index df \<and> columns df' = columns df"
proof (induction es arbitrary: df)
  case Nil
  then show ?case by simp
next
  case (Cons x es)
  from Cons.prems obtain df1 where s: "fill_columns df x cs = Inr df1"
    and r: "fill_entries df1 es cs = Inr df'"
    by (auto split: sum.splits)
  from Cons.IH [OF r] fill_columns_frame [OF s] show ?case by simp
qed

lemma fill_entries_checks:
  "fill_entries df es cs = Inr df' \<Longrightarrow> e \<in> set es \<Longrightarrow> c \<in> set cs \<Longrightarrow>
   (\<exists>d. parse_date (Date e) = Inr (Timestamp d) \<and> d \<in> set (index df)) \<and>
   count_list (columns df) c = 1"
proof (induction es arbitrary: df)
  case Nil
  then show ?case by simp
next
  case (Cons x es)
  from Cons.prems(1) obtain df1 where s: "fill_columns df x cs = Inr df1"
    and r: "fill_entries df1 es cs = Inr df'"
    by (auto split: sum.splits)
  show ?case
  proof (cases "e = x")
    case True
    with fill_columns_checks [OF s Cons.prems(3)] show ?thesis by simp
  next
    case False
    with Cons.prems(2) have "e \<in> set es" by simp
    from Cons.IH [OF r this Cons.prems(3)] fill_columns_frame [OF s] show ?thesis by simp
  qed
qed

lemma fill_entries_cells:
  "fill_entries df es cs = Inr df' \<Longrightarrow>
   cells df' (d, c) =
     (if cells df (d, c) = NaN \<and> c \<in> set cs
      then (case find (supplies d c) es of None \<Rightarrow> NaN | Some e \<Rightarrow> written_value e c)
      else cells df (d, c))"
proof (induction es arbitrary: df)
  case Nil
  then show ?case by simp
next
  case (Cons x es)
  from Cons.prems(1) obtain df1 where s: "fill_columns df x cs = Inr df1"
    and r: "fill_entries df1 es cs = Inr df'"
    by (auto split: sum.splits)
  note step = fill_columns_cells [OF s, of d c]
  note IH = Cons.IH [OF r]
  show ?case
  proof (cases "cells df (d, c) = NaN \<and> c \<in> set cs")
    case False
    with step have "cells df1 (d, c) = cells df (d, c)" by auto
    with IH False show ?thesis by auto
  next
    case unset: True
    show ?thesis
    proof (cases "supplies d c x")
      case True
      then have "parse_date (Date x) = Inr (Timestamp d)" "written_value x c \<noteq> NaN"
        by (simp_all add: supplies_def)
      with step unset have "cells df1 (d, c) = written_value x c" "cells df1 (d, c) \<noteq> NaN"
        by simp_all
      with IH True show ?thesis using unset by simp
    next
      case False
      with step unset have "cells df1 (d, c) = NaN" by (auto simp: supplies_def)
      with IH unset False show ?thesis by simp
    qed
  qed
qed

lemma fill_entries_append:
  "fill_entries df (xs @ ys) cs =
     (case fill_entries df xs cs of Inl e \<Rightarrow> Inl e | Inr df1 \<Rightarrow> fill_entries df1 ys cs)"
  by (induction xs arbitrary: df) (auto split: sum.splits)

lemma initialize_dataframe_Inr:
  "initialize_dataframe rawdata cols = Inr df \<Longrightarrow>
   rawdata \<noteq> [] \<and> columns df = cols \<and> cells df = (\<lambda>k. NaN) \<and>
   (\<exists>start end. parse_date (hd (sort (map Date rawdata))) = Inr (Timestamp start) \<and>
      parse_date (last (sort (map Date rawdata))) = Inr (Timestamp end) \<and>
      index df = [start..end])"
proof -
  assume a: "initialize_dataframe rawdata cols = Inr df"
  let ?ds = "sort (map Date rawdata)"
  from a have ne: "rawdata \<noteq> []"
    by (auto simp: initialize_dataframe_def Let_def split: if_splits)
  with a obtain a1 b1 days where p: "parse_date (hd ?ds) = Inr a1" "parse_date (last ?ds) = Inr b1"
    and dr: "date_range a1 b1 = Inr days"
    and df: "df = \<lparr>index = days, columns = cols, cells = (\<lambda>k. NaN)\<rparr>"
    by (auto simp: initialize_dataframe_def Let_def sort_dates_Nil split: sum.splits)
  from dr obtain start end' where t: "a1 = Timestamp start" "b1 = Timestamp end'"
    "days = [start..end']"
    by (cases "(a1, b1)" rule: date_range.cases) auto
  from ne p t df show ?thesis by simp
qed

lemma wrangle_data_Inr:
  "wrangle_data rawdata cols = Inr T \<Longrightarrow>
   \<exists>df0 df1. initialize_dataframe rawdata cols = Inr df0 \<and>
     fill_entries df0 rawdata cols = Inr df1 \<and> T = fillna 0 df1"
  by (auto simp: wrangle_data_def split: sum.splits)

lemma wrangle_data_frame:
  assumes "wrangle_data rawdata cols = Inr T"
  shows "columns T = cols \<and> rawdata \<noteq> [] \<and>
    (\<exists>start end. parse_date (hd (sort (map Date rawdata))) = Inr (Timestamp start) \<and>
      parse_date (last (sort (map Date rawdata))) = Inr (Timestamp end) \<and>
      index T = [start..end])"
proof -
  from wrangle_data_Inr [OF assms] obtain df0 df1
    where i: "initialize_dataframe rawdata cols = Inr df0"
      and f: "fill_entries df0 rawdata cols = Inr df1" and T: "T = fillna 0 df1"
    by blast
  from fill_entries_frame [OF f] initialize_dataframe_Inr [OF i] T show ?thesis
    by (simp add: fillna_def)
qed

lemma find_supplies:
  "find (supplies d c) es = Some e \<Longrightarrow>
   e \<in> set es \<and> parse_date (Date e) = Inr (Timestamp d) \<and> written_value e c \<noteq> NaN"
  by (auto simp: find_Some_iff supplies_def)

lemma wrangle_data_cells:
  assumes "wrangle_data rawdata cols = Inr T"
  shows "cells T (d, c) =
    (if d \<in> set (index T) \<and> c \<in> set cols
     then (case find (supplies d c) rawdata of
             None \<Rightarrow> Finite 0
           | Some e \<Rightarrow> written_value e c)
     else NaN)"
proof -
  from wrangle_data_Inr [OF assms] obtain df0 df1
    where i: "initialize_dataframe rawdata cols = Inr df0"
      and f: "fill_entries df0 rawdata cols = Inr df1" and T: "T = fillna 0 df1"
    by blast
  from initialize_dataframe_Inr [OF i] have c0: "cells df0 (d, c) = NaN"
    and cols0: "columns df0 = cols" by simp_all
  from fill_entries_frame [OF f] cols0 have fr: "index df1 = index df0" "columns df1 = cols"
    by simp_all
  have iT: "index T = index df0" using T fr by (simp add: fillna_def)
  note cell1 = fill_entries_cells [OF f, of d c]
  show ?thesis
  proof (cases "c \<in> set cols")
    case False
    with cell1 c0 have "cells df1 (d, c) = NaN" by simp
    with T fr False show ?thesis by (simp add: fillna_def)
  next
    case True
    show ?thesis
    proof (cases "find (supplies d c) rawdata")
      case None
      with cell1 c0 have "cells df1 (d, c) = NaN" by simp
      with T fr iT None True show ?thesis by (simp add: fillna_def)
    next
      case (Some e)
      from find_supplies [OF Some] have e: "e \<in> set rawdata"
        and pe: "parse_date (Date e) = Inr (Timestamp d)" and w: "written_value e c \<noteq> NaN"
        by simp_all
      from fill_entries_checks [OF f e True] pe have din: "d \<in> set (index df0)" by auto
      from cell1 c0 True Some have "cells df1 (d, c) = written_value e c" by simp
      with w T din iT True Some show ?thesis by (simp add: fillna_def)
    qed
  qed
qed

lemma wrangle_data_parses:
  assumes "wrangle_data rawdata cols = Inr T" "cols \<noteq> []" "e \<in> set rawdata"
  shows "\<exists>d. parse_date (Date e) = Inr (Timestamp d) \<and> d \<in> set (index T)"
proof -
  from assms(2) obtain c where c: "c \<in> set cols" by (cases cols) auto
  from wrangle_data_Inr [OF assms(1)] obtain df0 df1
    where f: "fill_entries df0 rawdata cols = Inr df1" and T: "T = fillna 0 df1" by blast
  have "index T = index df0" using T fill_entries_frame [OF f] by (simp add: fillna_def)
  with fill_entries_checks [OF f assms(3) c] show ?thesis by auto
qed

lemma first_record_find:
  assumes "i < length xs" "P (xs ! i)" "\<forall>k<i. \<not> P (xs ! k)"
  shows "find P xs = Some (xs ! i)"
  using assms by (auto simp: find_Some_iff)

lemma find_first_record:
  assumes "find P xs = Some e"
  shows "\<exists>i<length xs. e = xs ! i \<and> P (xs ! i) \<and> (\<forall>k<i. \<not> P (xs ! k))"
  using assms by (auto simp: find_Some_iff)

lemma float_or_zero_not_NaN:
  "float_or_zero v = Inr f \<Longrightarrow> v \<noteq> PyFloat NaN \<Longrightarrow> f \<noteq> NaN"
  by (cases v) (auto simp: float_of_int_def Let_def split: if_splits)

lemma float_or_zero_Finite:
  "float_or_zero v = Inr f \<Longrightarrow> v \<noteq> PyFloat NaN \<Longrightarrow> v \<noteq> PyFloat PosInf \<Longrightarrow>
   v \<noteq> PyFloat NegInf \<Longrightarrow> \<exists>x. f = Finite x"
proof (cases v)
  case NoData
  assume "float_or_zero v = Inr f"
  with NoData show ?thesis by auto
next
  case (PyInt n)
  assume "float_or_zero v = Inr f"
  with PyInt show ?thesis by (auto simp: float_of_int_def Let_def split: if_splits)
next
  case (PyFloat g)
  assume "float_or_zero v = Inr f" "v \<noteq> PyFloat NaN" "v \<noteq> PyFloat PosInf" "v \<noteq> PyFloat NegInf"
  with PyFloat show ?thesis by (cases g) auto
qed

lemma entry_value_items:
  "entry_value e c = Inr f \<Longrightarrow> \<exists>v. items e c = Some v \<and> float_or_zero v = Inr f"
  by (auto simp: entry_value_def split: if_splits option.splits)

lemma take_no_supplier:
  assumes "\<forall>k<i. parse_date (Date (xs ! k)) \<noteq> Inr (Timestamp d)" "i \<le> length xs"
  shows "find (supplies d c) (take i xs) = None"
proof -
  have "\<not> supplies d c x" if "x \<in> set (take i xs)" for x
  proof -
    from that obtain k where "k < length (take i xs)" "x = take i xs ! k"
      by (auto simp: in_set_conv_nth)
    with assms show ?thesis by (auto simp: supplies_def)
  qed
  then show ?thesis by (auto simp: find_None_iff)
qed

text \<open>The first record of a date is asked for every requested column.\<close>

lemma wrangle_first_value:
  assumes w: "wrangle_data rawdata cols = Inr T" and c: "c \<in> set cols"
    and i: "i < length rawdata" and p: "parse_date (Date (rawdata ! i)) = Inr (Timestamp d)"
    and first: "\<forall>k<i. parse_date (Date (rawdata ! k)) \<noteq> Inr (Timestamp d)"
  shows "entry_value (rawdata ! i) c = Inr (written_value (rawdata ! i) c)"
proof -
  let ?A = "take i rawdata" and ?B = "drop (Suc i) rawdata"
  from wrangle_data_Inr [OF w] obtain df0 df1
    where init: "initialize_dataframe rawdata cols = Inr df0"
      and fill: "fill_entries df0 rawdata cols = Inr df1" by blast
  have split: "rawdata = ?A @ rawdata ! i # ?B"
    using i by (simp add: id_take_nth_drop [symmetric])
  from fill obtain dA dB where fA: "fill_entries df0 ?A cols = Inr dA"
    and fi: "fill_columns dA (rawdata ! i) cols = Inr dB"
    using fill_entries_append [of df0 ?A "rawdata ! i # ?B" cols] split
    by (auto split: sum.splits)
  from initialize_dataframe_Inr [OF init] have "cells df0 (d, c) = NaN" by simp
  with fill_entries_cells [OF fA, of d c] take_no_supplier [OF first, of c] i
  have "cells dA (d, c) = NaN" by simp
  from fill_columns_present [OF fi c p this] show ?thesis .
qed

text \<open>A cell that is set stays as it is.\<close>

lemma set_dataframe_value_keeps:
  assumes "set_dataframe_value df e a = Inr df'" "cells df k \<noteq> NaN"
  shows "cells df' k = cells df k"
  using set_dataframe_value_cells [OF assms(1), of "fst k" "snd k"] assms(2)
  by (simp split: if_splits)

text \<open>What a record holds for a column is not read once the cell is set.\<close>

lemma set_dataframe_value_ignore:
  assumes "parse_date (Date e) = Inr (Timestamp d)" "cells df (d, c) \<noteq> NaN"
    and "Date e' = Date e" "\<forall>a. a \<noteq> c \<longrightarrow> items e' a = items e a"
  shows "set_dataframe_value df e' a = set_dataframe_value df e a"
proof (cases "a = c")
  case True
  with assms(1,2,3) show ?thesis
    by (auto simp: set_dataframe_value_def loc_isna_def split: sum.splits)
next
  case False
  with assms(4) have "entry_value e' a = entry_value e a"
    by (simp add: entry_value_def)
  with assms(3) show ?thesis
    by (auto simp: set_dataframe_value_def split: sum.splits datetime.splits)
qed

lemma fill_columns_ignore:
  assumes "parse_date (Date e) = Inr (Timestamp d)" "cells df (d, c) \<noteq> NaN"
    and "Date e' = Date e" "\<forall>a. a \<noteq> c \<longrightarrow> items e' a = items e a"
  shows "fill_columns df e' cs = fill_columns df e cs"
  using assms(2)
proof (induction cs arbitrary: df)
  case Nil
  then show ?case by simp
next
  case (Cons a cs)
  note same = set_dataframe_value_ignore [OF assms(1) Cons.prems assms(3,4), of a]
  show ?case
  proof (cases "set_dataframe_value df e a")
    case (Inl err)
    with same show ?thesis by simp
  next
    case (Inr df1)
    from set_dataframe_value_keeps [OF Inr Cons.prems] Cons.prems
    have "cells df1 (d, c) \<noteq> NaN" by simp
    from Cons.IH [OF this] same Inr show ?thesis by simp
  qed
qed

lemma initialize_dataframe_dates:
  "map Date xs = map Date ys \<Longrightarrow> initialize_dataframe xs cols = initialize_dataframe ys cols"
  by (simp add: initialize_dataframe_def)

section \<open>The store model and the functional model\<close>






section \<open>Evaluations on the concrete inputs\<close>

lemma parse_2021_01_01: "parse_date ''2021-01-01'' = Inr (Timestamp 737791)" by code_simp
lemma parse_2021_01_02: "parse_date ''2021-01-02'' = Inr (Timestamp 737792)" by code_simp
lemma parse_2021_01_03: "parse_date ''2021-01-03'' = Inr (Timestamp 737793)" by code_simp
lemma parse_2021_01_31: "parse_date ''2021-01-31'' = Inr (Timestamp 737821)" by code_simp
lemma parse_2021_02_01: "parse_date ''2021-02-01'' = Inr (Timestamp 737822)" by code_simp
lemma parse_2021_1_5: "parse_date ''2021-1-5'' = Inr (Timestamp 737795)" by code_simp
lemma parse_2021_01_1x: "parse_date ''2021-01-1x'' = Inl ParseError" by code_simp

lemma iso_2021_01_01: "iso_date ''2021-01-01'' \<and> iso_day ''2021-01-01'' = 737791" by code_simp
lemma iso_2021_01_03: "iso_date ''2021-01-03'' \<and> iso_day ''2021-01-03'' = 737793" by code_simp

lemma wrangle_unpadded:
  "\<not> isl (wrangle_data [entry_A ''2021-01-31'' (PyInt 5), entry_A ''2021-1-5'' (PyInt 7)] []) \<and>
   index (projr (wrangle_data [entry_A ''2021-01-31'' (PyInt 5),
                               entry_A ''2021-1-5'' (PyInt 7)] [])) = []"
  by code_simp

lemma wrangle_two_days:
  "\<not> isl (wrangle_data [entry_A ''2021-01-03'' (PyInt 7), entry_A ''2021-01-01'' (PyInt 5)] [''A''])"
  by code_simp

lemma wrangle_two_days_no_columns:
  "\<not> isl (wrangle_data [entry_A ''2021-01-03'' (PyInt 7), entry_A ''2021-01-01'' (PyInt 5)] [])"
  by code_simp

lemma wrangle_infinite:
  "\<not> isl (wrangle_data [entry_A ''2021-01-01'' (PyFloat PosInf)] [''A'']) \<and>
   index (projr (wrangle_data [entry_A ''2021-01-01'' (PyFloat PosInf)] [''A''])) = [737791] \<and>
   cells (projr (wrangle_data [entry_A ''2021-01-01'' (PyFloat PosInf)] [''A'']))
     (737791, ''A'') = PosInf"
  by code_simp

lemma wrangle_no_data_first:
  "\<not> isl (wrangle_data [entry_A ''2021-02-01'' NoData, entry_A ''2021-02-01'' (PyInt 4)] [''A'']) \<and>
   index (projr (wrangle_data [entry_A ''2021-02-01'' NoData,
                               entry_A ''2021-02-01'' (PyInt 4)] [''A''])) = [737822] \<and>
   columns (projr (wrangle_data [entry_A ''2021-02-01'' NoData,
                                 entry_A ''2021-02-01'' (PyInt 4)] [''A''])) = [''A'']"
  by code_simp


lemma wrangle_nan_first:
  "\<not> isl (wrangle_data [entry_A ''2021-01-01'' (PyFloat NaN), entry_A ''2021-01-01'' (PyInt 7)]
            [''A'']) \<and>
   cells (projr (wrangle_data [entry_A ''2021-01-01'' (PyFloat NaN),
                               entry_A ''2021-01-01'' (PyInt 7)] [''A'']))
     (737791, ''A'') = Finite 7"
  by code_simp

lemma wrangle_duplicate_dates:
  "\<not> isl (wrangle_data [entry_A ''2021-01-01'' (PyInt 5), entry_A ''2021-01-02'' (PyInt 6),
                        entry_A ''2021-01-01'' (PyInt 9)] [''A''])"
  by code_simp

lemma float_5: "float_of_int 5 = Inr (Finite 5)" by code_simp

lemma wrangle_absent_column:
  "isl (wrangle_data [entry_A ''2021-01-01'' (PyInt 5)] [''B'']) \<and>
   projl (wrangle_data [entry_A ''2021-01-01'' (PyInt 5)] [''B'']) = KeyError"
  by code_simp

lemma wrangle_absent_after_fill:
  "\<not> isl (wrangle_data [entry_A ''2021-01-01'' (PyInt 5),
                        \<lparr>Date = ''2021-01-01'', items = Map.empty\<rparr>] [''A''])"
  by code_simp

lemma wrangle_malformed_no_columns:
  "\<not> isl (wrangle_data [entry_A ''2021-01-01'' (PyInt 1), entry_A ''2021-01-1x'' (PyInt 2),
                        entry_A ''2021-01-31'' (PyInt 3)] [])"
  by code_simp

lemma wrangle_malformed_after_absent:
  "isl (wrangle_data [\<lparr>Date = ''2021-01-01'', items = Map.empty\<rparr>,
                      entry_A ''2021-01-1x'' (PyInt 2), entry_A ''2021-01-31'' (PyInt 3)] [''A'']) \<and>
   projl (wrangle_data [\<lparr>Date = ''2021-01-01'', items = Map.empty\<rparr>,
                      entry_A ''2021-01-1x'' (PyInt 2), entry_A ''2021-01-31'' (PyInt 3)] [''A''])
     = KeyError"
  by code_simp

lemma wrangle_one_entry_A:
  "\<not> isl (wrangle_data [entry_A ''2021-01-01'' (PyInt 5)] [''A''])"
  by code_simp

lemma wrangle_unpadded_column:
  "\<not> date_shape ''2021-1-5'' \<and>
   \<not> isl (wrangle_data [entry_A ''2021-01-01'' (PyInt 1), entry_A ''2021-1-5'' (PyInt 2)] [''A'']) \<and>
   length (index (projr (wrangle_data [entry_A ''2021-01-01'' (PyInt 1),
                                       entry_A ''2021-1-5'' (PyInt 2)] [''A'']))) = 5"
  by code_simp

lemma isl_projl: "isl x \<and> projl x = e \<Longrightarrow> x = Inl e"
  by (cases x) auto

lemma wrangle_hospital_example:
  "case wrangle_data [entry_full ''2021-01-01'' 3, entry_no_cases ''2021-01-02'' 4]
          hospital_ventilator_columns of
     Inl e \<Rightarrow> False
   | Inr T \<Rightarrow> index T = [737791, 737792] \<and> cells T (737791, ''Daily Deaths'') = Finite 0"
  by code_simp

lemma wrangle_vaccine_example:
  "isl (wrangle_data [entry_full ''2021-01-01'' 3, entry_no_cases ''2021-01-02'' 4]
          vaccine_cases_columns) \<and>
   projl (wrangle_data [entry_full ''2021-01-01'' 3, entry_no_cases ''2021-01-02'' 4]
          vaccine_cases_columns) = KeyError"
  by code_simp

lemma wrangle_first_hospital:
  "case wrangle_data [entry_full ''2021-01-01'' 3] hospital_ventilator_columns of
     Inl e \<Rightarrow> False
   | Inr T \<Rightarrow> index T = [737791]"
  by code_simp

lemma wrangle_first_vaccine:
  "\<not> isl (wrangle_data [entry_full ''2021-01-01'' 3] vaccine_cases_columns)"
  by code_simp

lemma wrangle_second_hospital:
  "case wrangle_data [entry_full ''2021-01-02'' 4] hospital_ventilator_columns of
     Inl e \<Rightarrow> False
   | Inr T \<Rightarrow> index T = [737792]"
  by code_simp

lemma wrangle_second_vaccine:
  "\<not> isl (wrangle_data [entry_full ''2021-01-02'' 4] vaccine_cases_columns)"
  by code_simp

lemma refresh_graph_id: "refresh_graph st = st"
  by (simp add: refresh_graph_def Let_def)

section \<open>The index of the table\<close>

text \<open>
  Claim C1, as stated, fails. \<^verbatim>\<open>pd.to_datetime\<close> also reads a date that is not
  zero-padded, and the bounds of the index are the first and the last of the date strings
  in the order of strings, not of dates. The strings \<^verbatim>\<open>'2021-01-31'\<close> and \<^verbatim>\<open>'2021-1-5'\<close>
  both parse; in the order of strings the later day comes first, so the index runs from
  31 January to 5 January: with no column requested a table is returned whose index is
  empty.
\<close>

theorem unpadded_dates_empty_index:
  "parse_date ''2021-01-31'' = Inr (Timestamp 737821) \<and>
   parse_date ''2021-1-5'' = Inr (Timestamp 737795) \<and>
   \<not> isl (wrangle_data [entry_A ''2021-01-31'' (PyInt 5), entry_A ''2021-1-5'' (PyInt 7)] []) \<and>
   index (projr (wrangle_data [entry_A ''2021-01-31'' (PyInt 5),
                               entry_A ''2021-1-5'' (PyInt 7)] [])) = []"
  using parse_2021_01_31 parse_2021_1_5 wrangle_unpadded by simp

text \<open>
  Claim C1, amended. For a non-empty list of records whose date strings all parse
  (\<open>day e\<close> is the day that the date of \<open>e\<close> parses to), and either at least one
  requested column or date strings that all have the zero-padded shape
  \<^verbatim>\<open>YYYY-MM-DD\<close>, the row index of the table returned by \<^verbatim>\<open>wrangle_data\<close> is the list
  of all days from the earliest to the latest day of the records, each once, every row
  one day after the row before.
\<close>

theorem wrangled_index_contiguous:
  assumes "rawdata \<noteq> []"
    and "\<forall>e\<in>set rawdata. parse_date (Date e) = Inr (Timestamp (day e))"
    and "column_array \<noteq> [] \<or> (\<forall>e\<in>set rawdata. iso_date (Date e))"
    and "wrangle_data rawdata column_array = Inr T"
  shows "index T = [Min (day ` set rawdata)..Max (day ` set rawdata)] \<and>
         distinct (index T) \<and>
         (\<forall>i. Suc i < length (index T) \<longrightarrow> index T ! Suc i = index T ! i + 1)"
proof -
  from wrangle_data_frame [OF assms(4)] obtain start end'
    where s: "parse_date (hd (sort (map Date rawdata))) = Inr (Timestamp start)"
      and l: "parse_date (last (sort (map Date rawdata))) = Inr (Timestamp end')"
      and ix: "index T = [start..end']" by blast
  from assms(1) have ne': "map Date rawdata \<noteq> []" by simp
  have fin: "finite (day ` set rawdata)" "day ` set rawdata \<noteq> {}" using assms(1) by simp_all
  from hd_sort_least [OF ne'] obtain e0 where e0: "e0 \<in> set rawdata"
    "hd (sort (map Date rawdata)) = Date e0" by auto
  with s assms(2) have s0: "start = day e0" by auto
  from last_sort_greatest [OF ne'] obtain e1 where e1: "e1 \<in> set rawdata"
    "last (sort (map Date rawdata)) = Date e1" by auto
  with l assms(2) have l1: "end' = day e1" by auto
  have bounds: "start \<le> day e \<and> day e \<le> end'" if e: "e \<in> set rawdata" for e
    using assms(3)
  proof
    assume "column_array \<noteq> []"
    from wrangle_data_parses [OF assms(4) this e] assms(2) e ix show ?thesis by auto
  next
    assume iso: "\<forall>e\<in>set rawdata. iso_date (Date e)"
    have d: "day x = iso_day (Date x)" if "x \<in> set rawdata" for x
      using parse_date_iso [of "Date x"] iso assms(2) that by auto
    from hd_sort_least [OF ne'] e e0 have "Date e0 \<le> Date e" by simp
    with iso e e0(1) have 1: "iso_day (Date e0) \<le> iso_day (Date e)"
      by (intro iso_day_mono) auto
    from last_sort_greatest [OF ne'] e e1 have "Date e \<le> Date e1" by simp
    with iso e e1(1) have 2: "iso_day (Date e) \<le> iso_day (Date e1)"
      by (intro iso_day_mono) auto
    from 1 2 d e e0(1) e1(1) s0 l1 show ?thesis by simp
  qed
  from bounds e0(1) s0 fin have mn: "Min (day ` set rawdata) = start"
    by (intro Min_eqI) auto
  from bounds e1(1) l1 fin have mx: "Max (day ` set rawdata) = end'"
    by (intro Max_eqI) auto
  have step: "\<forall>i. Suc i < length [start..end'] \<longrightarrow> [start..end'] ! Suc i = [start..end'] ! i + 1"
  proof (intro allI impI)
    fix i assume "Suc i < length [start..end']"
    then have "start + int (Suc i) \<le> end'" by simp
    then show "[start..end'] ! Suc i = [start..end'] ! i + 1" by simp
  qed
  from mn mx ix step show ?thesis by simp
qed

theorem wrangled_index_contiguous_witness:
  "index (projr (wrangle_data [entry_A ''2021-01-03'' (PyInt 7),
                               entry_A ''2021-01-01'' (PyInt 5)] [''A'']))
     = [737791, 737792, 737793] \<and>
   index (projr (wrangle_data [entry_A ''2021-01-03'' (PyInt 7),
                               entry_A ''2021-01-01'' (PyInt 5)] []))
     = [737791, 737792, 737793]"
proof -
  let ?raw = "[entry_A ''2021-01-03'' (PyInt 7), entry_A ''2021-01-01'' (PyInt 5)]"
  let ?day = "\<lambda>e. if Date e = ''2021-01-03'' then 737793 else (737791::int)"
  obtain T where T: "wrangle_data ?raw [''A''] = Inr T"
    using wrangle_two_days by (cases "wrangle_data ?raw [''A'']") auto
  obtain U where U: "wrangle_data ?raw [] = Inr U"
    using wrangle_two_days_no_columns by (cases "wrangle_data ?raw []") auto
  have 2: "\<forall>e\<in>set ?raw. parse_date (Date e) = Inr (Timestamp (?day e))"
    by (simp add: entry_A_def parse_2021_01_01 parse_2021_01_03)
  have 3: "\<forall>e\<in>set ?raw. iso_date (Date e)"
    by (simp add: entry_A_def iso_2021_01_01 iso_2021_01_03)
  have days: "[Min (?day ` set ?raw)..Max (?day ` set ?raw)] = [737791, 737792, 737793]"
    by (simp add: entry_A_def upto.simps)
  have "index T = [Min (?day ` set ?raw)..Max (?day ` set ?raw)]"
    using wrangled_index_contiguous [OF _ 2 _ T] by simp
  moreover have "index U = [Min (?day ` set ?raw)..Max (?day ` set ?raw)]"
    using wrangled_index_contiguous [OF _ 2 _ U] 3 by simp
  ultimately show ?thesis using days by (simp add: T U)
qed

section \<open>The cells of the table\<close>

text \<open>
  Claim C2, as stated, fails. \<^verbatim>\<open>json.load\<close> reads a number beyond the range of a
  double, such as \<^verbatim>\<open>1e999\<close>, as the float \<^verbatim>\<open>inf\<close>; \<^verbatim>\<open>wrangle_data\<close> writes it into the
  cell, and \<^verbatim>\<open>fillna\<close> leaves it there: the cell holds no finite value.
\<close>

theorem infinite_value_stays:
  "\<not> isl (wrangle_data [entry_A ''2021-01-01'' (PyFloat PosInf)] [''A'']) \<and>
   index (projr (wrangle_data [entry_A ''2021-01-01'' (PyFloat PosInf)] [''A''])) = [737791] \<and>
   cells (projr (wrangle_data [entry_A ''2021-01-01'' (PyFloat PosInf)] [''A'']))
     (737791, ''A'') = PosInf"
  by (rule wrangle_infinite)

text \<open>
  Claim C2, amended. Every cell of the returned table, for a date of its index and one of
  its columns, holds a float that is not \<^verbatim>\<open>NaN\<close>: it is never null or unset. The marker of
  no data counts as the value zero and not as a missing value: when the first record of
  the date holds the marker, the cell is 0.0, whatever later records of that date hold.
  The cell is finite when no record holds an infinite float for the column.
\<close>

theorem wrangled_cells_numeric:
  assumes "wrangle_data rawdata column_array = Inr T"
    and "d \<in> set (index T)" and "c \<in> set (columns T)"
  shows "cells T (d, c) \<noteq> NaN \<and>
         (\<forall>i<length rawdata.
            parse_date (Date (rawdata ! i)) = Inr (Timestamp d) \<and>
            (\<forall>k<i. parse_date (Date (rawdata ! k)) \<noteq> Inr (Timestamp d)) \<and>
            items (rawdata ! i) c = Some NoData
            \<longrightarrow> cells T (d, c) = Finite 0) \<and>
         ((\<forall>e\<in>set rawdata. items e c \<noteq> Some (PyFloat PosInf) \<and>
                            items e c \<noteq> Some (PyFloat NegInf))
            \<longrightarrow> (\<exists>v. cells T (d, c) = Finite v))"
proof -
  from wrangle_data_frame [OF assms(1)] assms(3) have c: "c \<in> set column_array" by simp
  note cell = wrangle_data_cells [OF assms(1), of d c]
  have 1: "cells T (d, c) \<noteq> NaN"
  proof (cases "find (supplies d c) rawdata")
    case None
    with cell assms(2) c show ?thesis by simp
  next
    case (Some e)
    with cell assms(2) c find_supplies [OF Some] show ?thesis by simp
  qed
  have 2: "cells T (d, c) = Finite 0"
    if i: "i < length rawdata" and p: "parse_date (Date (rawdata ! i)) = Inr (Timestamp d)"
      and first: "\<forall>k<i. parse_date (Date (rawdata ! k)) \<noteq> Inr (Timestamp d)"
      and n: "items (rawdata ! i) c = Some NoData"
    for i
  proof -
    from wrangle_first_value [OF assms(1) c i p first] entry_value_items n
    have "written_value (rawdata ! i) c = Finite 0" by fastforce
    with p have "supplies d c (rawdata ! i)" by (simp add: supplies_def)
    moreover from first have "\<forall>k<i. \<not> supplies d c (rawdata ! k)" by (simp add: supplies_def)
    ultimately have "find (supplies d c) rawdata = Some (rawdata ! i)"
      using i by (intro first_record_find) simp_all
    with cell assms(2) c \<open>written_value (rawdata ! i) c = Finite 0\<close> show ?thesis by simp
  qed
  have 3: "\<exists>v. cells T (d, c) = Finite v"
    if fin: "\<forall>e\<in>set rawdata. items e c \<noteq> Some (PyFloat PosInf) \<and>
                              items e c \<noteq> Some (PyFloat NegInf)"
  proof (cases "find (supplies d c) rawdata")
    case None
    with cell assms(2) c show ?thesis by simp
  next
    case (Some e)
    from find_supplies [OF Some] have e: "e \<in> set rawdata" and w: "written_value e c \<noteq> NaN"
      by simp_all
    from entry_value_items [OF written_value_not_NaN [OF w]] obtain v
      where v: "items e c = Some v" "float_or_zero v = Inr (written_value e c)" by blast
    from v(2) w have "v \<noteq> PyFloat NaN" by auto
    moreover from fin e v(1) have "v \<noteq> PyFloat PosInf" "v \<noteq> PyFloat NegInf" by auto
    ultimately have "\<exists>x. written_value e c = Finite x"
      using float_or_zero_Finite [OF v(2)] by simp
    with cell assms(2) c Some show ?thesis by simp
  qed
  from 1 2 3 show ?thesis by blast
qed

theorem wrangled_cells_numeric_witness:
  "cells (projr (wrangle_data [entry_A ''2021-02-01'' NoData,
                               entry_A ''2021-02-01'' (PyInt 4)] [''A''])) (737822, ''A'')
     = Finite 0"
proof -
  let ?raw = "[entry_A ''2021-02-01'' NoData, entry_A ''2021-02-01'' (PyInt 4)]"
  obtain T where T: "wrangle_data ?raw [''A''] = Inr T"
    and i: "737822 \<in> set (index T)" and c: "''A'' \<in> set (columns T)"
    using wrangle_no_data_first by (cases "wrangle_data ?raw [''A'']") auto
  have "parse_date (Date (?raw ! 0)) = Inr (Timestamp 737822) \<and>
        (\<forall>k<0. parse_date (Date (?raw ! k)) \<noteq> Inr (Timestamp 737822)) \<and>
        items (?raw ! 0) ''A'' = Some NoData"
    by (simp add: entry_A_def parse_2021_02_01)
  with wrangled_cells_numeric [OF T i c] have "cells T (737822, ''A'') = Finite 0"
    by (metis length_greater_0_conv list.distinct(1))
  then show ?thesis by (simp add: T)
qed



text \<open>
  Claim C3, as stated, fails. Python's \<^verbatim>\<open>json\<close> reads the literal \<^verbatim>\<open>NaN\<close> as the float
  \<^verbatim>\<open>nan\<close>. Written into the cell, it leaves the cell unset for \<^verbatim>\<open>pd.isna\<close>, so the
  value of the later record of the same date is written over it: the later record wins.
\<close>

theorem nan_first_record_loses:
  "\<not> isl (wrangle_data [entry_A ''2021-01-01'' (PyFloat NaN), entry_A ''2021-01-01'' (PyInt 7)]
            [''A'']) \<and>
   cells (projr (wrangle_data [entry_A ''2021-01-01'' (PyFloat NaN),
                               entry_A ''2021-01-01'' (PyInt 7)] [''A'']))
     (737791, ''A'') = Finite 7"
  by (rule wrangle_nan_first)

text \<open>
  Claim C3, amended. When two records have the same date and both carry a value for a
  requested column, and the value of the first record of that date (\<open>i\<close>; \<open>j\<close> is a
  later one) is not the float \<^verbatim>\<open>nan\<close>, the cell holds the value of the first record,
  as \<^verbatim>\<open>float\<close> converts it. The value of the later record is ignored: whatever that
  record holds for the column, or if it lacks the column, the table returned is the
  same, so no cell differs.
\<close>

theorem first_record_wins:
  assumes "wrangle_data rawdata column_array = Inr T"
    and "i < j" and "j < length rawdata"
    and "parse_date (Date (rawdata ! i)) = Inr (Timestamp d)"
    and "parse_date (Date (rawdata ! j)) = Inr (Timestamp d)"
    and "\<forall>k<i. parse_date (Date (rawdata ! k)) \<noteq> Inr (Timestamp d)"
    and "c \<in> set column_array"
    and "items (rawdata ! i) c = Some v" and "items (rawdata ! j) c = Some w"
    and "v \<noteq> PyFloat NaN"
  shows "float_or_zero v = Inr (cells T (d, c)) \<and>
         (\<forall>x. wrangle_data (rawdata[j := (rawdata ! j)\<lparr>items := (items (rawdata ! j))(c := x)\<rparr>])
                 column_array = Inr T)"
proof -
  let ?A = "take j rawdata" and ?B = "drop (Suc j) rawdata"
  from assms(2,3) have i: "i < length rawdata" by simp
  from wrangle_first_value [OF assms(1,7) i assms(4,6)]
  have ev: "entry_value (rawdata ! i) c = Inr (written_value (rawdata ! i) c)" .
  from entry_value_items [OF ev] assms(8)
  have fv: "float_or_zero v = Inr (written_value (rawdata ! i) c)" by simp
  from float_or_zero_not_NaN [OF fv assms(10)]
  have nn: "written_value (rawdata ! i) c \<noteq> NaN" .
  with assms(4) have sup: "supplies d c (rawdata ! i)" by (simp add: supplies_def)
  from assms(6) have nos: "\<forall>k<i. \<not> supplies d c (rawdata ! k)" by (simp add: supplies_def)
  have first: "find (supplies d c) rawdata = Some (rawdata ! i)"
    using i sup nos by (intro first_record_find) simp_all
  from assms(7) have cne: "column_array \<noteq> []" by auto
  from wrangle_data_parses [OF assms(1) cne nth_mem [OF i]] assms(4)
  have din: "d \<in> set (index T)" by auto
  with wrangle_data_cells [OF assms(1), of d c] assms(7) first
  have cell: "cells T (d, c) = written_value (rawdata ! i) c" by simp
  from wrangle_data_Inr [OF assms(1)] obtain df0 df1
    where init: "initialize_dataframe rawdata column_array = Inr df0"
      and fill: "fill_entries df0 rawdata column_array = Inr df1" and T: "T = fillna 0 df1"
    by blast
  have split: "rawdata = ?A @ rawdata ! j # ?B"
    using assms(3) by (simp add: id_take_nth_drop [symmetric])
  from fill obtain dA where fA: "fill_entries df0 ?A column_array = Inr dA"
    and fjB: "fill_entries dA (rawdata ! j # ?B) column_array = Inr df1"
    using fill_entries_append [of df0 ?A "rawdata ! j # ?B" column_array] split
    by (auto split: sum.splits)
  have firstA: "find (supplies d c) ?A = Some (rawdata ! i)"
  proof -
    have "i < length ?A" using assms(2,3) by simp
    moreover have "?A ! i = rawdata ! i" using assms(2) by simp
    moreover have "\<forall>k<i. \<not> supplies d c (?A ! k)" using nos assms(2) by simp
    ultimately show ?thesis using sup first_record_find [of i ?A "supplies d c"] by simp
  qed
  from initialize_dataframe_Inr [OF init] have "cells df0 (d, c) = NaN" by simp
  with fill_entries_cells [OF fA, of d c] assms(7) firstA nn
  have filled: "cells dA (d, c) \<noteq> NaN" by simp
  have 2: "wrangle_data (rawdata[j := (rawdata ! j)\<lparr>items := (items (rawdata ! j))(c := x)\<rparr>])
                 column_array = Inr T" for x
  proof -
    let ?e' = "(rawdata ! j)\<lparr>items := (items (rawdata ! j))(c := x)\<rparr>"
    have upd: "rawdata[j := ?e'] = ?A @ ?e' # ?B"
      using assms(3) by (rule upd_conv_take_nth_drop)
    have "fill_columns dA ?e' column_array = fill_columns dA (rawdata ! j) column_array"
      by (rule fill_columns_ignore [OF assms(5) filled]) simp_all
    with fjB have "fill_entries dA (?e' # ?B) column_array = Inr df1" by simp
    with fA have fill': "fill_entries df0 (rawdata[j := ?e']) column_array = Inr df1"
      by (simp add: upd fill_entries_append)
    have "map Date (rawdata[j := ?e']) = map Date rawdata"
      using assms(3) by (simp add: map_update list_update_same_conv)
    from initialize_dataframe_dates [OF this, of column_array] init
    have "initialize_dataframe (rawdata[j := ?e']) column_array = Inr df0" by simp
    with fill' T show ?thesis by (simp add: wrangle_data_def)
  qed
  from fv cell 2 show ?thesis by simp
qed

theorem first_record_wins_witness:
  "cells (projr (wrangle_data [entry_A ''2021-01-01'' (PyInt 5), entry_A ''2021-01-02'' (PyInt 6),
                               entry_A ''2021-01-01'' (PyInt 9)] [''A''])) (737791, ''A'')
     = Finite 5 \<and>
   wrangle_data [entry_A ''2021-01-01'' (PyInt 5), entry_A ''2021-01-02'' (PyInt 6),
                 (entry_A ''2021-01-01'' (PyInt 9))\<lparr>items :=
                    (items (entry_A ''2021-01-01'' (PyInt 9)))(''A'' := None)\<rparr>] [''A'']
     = wrangle_data [entry_A ''2021-01-01'' (PyInt 5), entry_A ''2021-01-02'' (PyInt 6),
                     entry_A ''2021-01-01'' (PyInt 9)] [''A'']"
proof -
  let ?raw = "[entry_A ''2021-01-01'' (PyInt 5), entry_A ''2021-01-02'' (PyInt 6),
               entry_A ''2021-01-01'' (PyInt 9)]"
  obtain T where T: "wrangle_data ?raw [''A''] = Inr T"
    using wrangle_duplicate_dates by (cases "wrangle_data ?raw [''A'']") auto
  have "float_or_zero (PyInt 5) = Inr (cells T (737791, ''A'')) \<and>
        (\<forall>x. wrangle_data (?raw[2 := (?raw ! 2)\<lparr>items := (items (?raw ! 2))(''A'' := x)\<rparr>])
                 [''A''] = Inr T)"
    by (rule first_record_wins [OF T, of 0 2 737791 "''A''" "PyInt 5" "PyInt 9"])
      (simp_all add: entry_A_def parse_2021_01_01)
  then have a: "cells T (737791, ''A'') = Finite 5"
    and b: "wrangle_data (?raw[2 := (?raw ! 2)\<lparr>items := (items (?raw ! 2))(''A'' := None)\<rparr>])
                 [''A''] = Inr T"
    using float_5 by simp_all
  from b have "wrangle_data [entry_A ''2021-01-01'' (PyInt 5), entry_A ''2021-01-02'' (PyInt 6),
                 (entry_A ''2021-01-01'' (PyInt 9))\<lparr>items :=
                    (items (entry_A ''2021-01-01'' (PyInt 9)))(''A'' := None)\<rparr>] [''A''] = Inr T"
    by simp
  with a T show ?thesis by simp
qed

section \<open>Records that lack a column, records with a malformed date, no records\<close>

text \<open>
  Claim C6, as stated, fails: a record that lacks a requested column is not skipped.
  The lookup \<^verbatim>\<open>entry[column]\<close> raises \<^verbatim>\<open>KeyError\<close> and no table is returned.
\<close>

theorem absent_column_raises:
  "wrangle_data [entry_A ''2021-01-01'' (PyInt 5)] [''B''] = Inl KeyError"
  using wrangle_absent_column by (rule isl_projl)

text \<open>
  Claim C6, amended. The step \<^verbatim>\<open>set_dataframe_value\<close> does not test whether the record
  has the column: on a record that lacks it, the step leaves the table as it is when the
  cell is already set, and raises \<^verbatim>\<open>KeyError\<close> when the cell is unset. So where
  \<^verbatim>\<open>wrangle_data\<close> returns a table, every record that lacks a requested column comes
  after a record of the same date that has it.
\<close>

theorem absent_column_needs_filled_cell:
  "(parse_date (Date entry) = Inr (Timestamp d) \<and> d \<in> set (index df) \<and>
    count_list (columns df) c = 1 \<and> c \<noteq> ''Date'' \<and> items entry c = None
    \<longrightarrow> set_dataframe_value df entry c =
          (if cells df (d, c) = NaN then Inl KeyError else Inr df)) \<and>
   (wrangle_data rawdata column_array = Inr T \<and> i < length rawdata \<and> c \<in> set column_array \<and>
    c \<noteq> ''Date'' \<and> items (rawdata ! i) c = None
    \<longrightarrow> (\<exists>k<i. parse_date (Date (rawdata ! k)) = parse_date (Date (rawdata ! i)) \<and>
               items (rawdata ! k) c \<noteq> None))"
proof -
  have 1: "set_dataframe_value df entry c =
          (if cells df (d, c) = NaN then Inl KeyError else Inr df)"
    if "parse_date (Date entry) = Inr (Timestamp d)" "d \<in> set (index df)"
      "count_list (columns df) c = 1" "c \<noteq> ''Date''" "items entry c = None"
  proof -
    from that(3) have "c \<in> set (columns df)" by (metis count_list_0_iff zero_neq_one)
    with that show ?thesis
      by (simp add: set_dataframe_value_def loc_isna_def entry_value_def)
  qed
  have 2: "\<exists>k<i. parse_date (Date (rawdata ! k)) = parse_date (Date (rawdata ! i)) \<and>
               items (rawdata ! k) c \<noteq> None"
    if w: "wrangle_data rawdata column_array = Inr T" and i: "i < length rawdata"
      and c: "c \<in> set column_array" and nd: "c \<noteq> ''Date''"
      and n: "items (rawdata ! i) c = None"
  proof -
    let ?A = "take i rawdata" and ?B = "drop (Suc i) rawdata"
    from c have cne: "column_array \<noteq> []" by auto
    from wrangle_data_parses [OF w cne nth_mem [OF i]] obtain d
      where d: "parse_date (Date (rawdata ! i)) = Inr (Timestamp d)" by blast
    from wrangle_data_Inr [OF w] obtain df0 df1
      where init: "initialize_dataframe rawdata column_array = Inr df0"
        and fill: "fill_entries df0 rawdata column_array = Inr df1" by blast
    have split: "rawdata = ?A @ rawdata ! i # ?B"
      using i by (simp add: id_take_nth_drop [symmetric])
    from fill obtain dA dB where fA: "fill_entries df0 ?A column_array = Inr dA"
      and fi: "fill_columns dA (rawdata ! i) column_array = Inr dB"
      using fill_entries_append [of df0 ?A "rawdata ! i # ?B" column_array] split
      by (auto split: sum.splits)
    have "entry_value (rawdata ! i) c = Inl KeyError"
      using n nd by (simp add: entry_value_def)
    with fill_columns_present [OF fi c d] have set: "cells dA (d, c) \<noteq> NaN" by auto
    from initialize_dataframe_Inr [OF init] have "cells df0 (d, c) = NaN" by simp
    with fill_entries_cells [OF fA, of d c] set c
    obtain e where e: "find (supplies d c) ?A = Some e"
      by (cases "find (supplies d c) ?A") auto
    from find_first_record [OF e] obtain k where k: "k < length ?A" "e = ?A ! k" by blast
    then have ki: "k < i" and ek: "e = rawdata ! k" by simp_all
    from find_supplies [OF e] have pe: "parse_date (Date e) = Inr (Timestamp d)"
      and we: "written_value e c \<noteq> NaN" by simp_all
    from entry_value_Inr [OF written_value_not_NaN [OF we]] have "items e c \<noteq> None" by simp
    with ki ek pe d show ?thesis by auto
  qed
  from 1 2 show ?thesis by blast
qed

theorem absent_column_needs_filled_cell_witness:
  "set_dataframe_value (example_df [''A'']) \<lparr>Date = ''2021-01-01'', items = Map.empty\<rparr> ''A''
     = Inr (example_df [''A'']) \<and>
   (\<exists>k<1. parse_date (Date ([entry_A ''2021-01-01'' (PyInt 5),
                                \<lparr>Date = ''2021-01-01'', items = Map.empty\<rparr>] ! k)) =
          parse_date ''2021-01-01'')"
proof -
  let ?e = "\<lparr>Date = ''2021-01-01'', items = Map.empty\<rparr>"
  let ?raw = "[entry_A ''2021-01-01'' (PyInt 5), ?e]"
  have "parse_date (Date ?e) = Inr (Timestamp 737791) \<and>
        737791 \<in> set (index (example_df [''A''])) \<and>
        count_list (columns (example_df [''A''])) ''A'' = 1 \<and> ''A'' \<noteq> ''Date'' \<and>
        items ?e ''A'' = None"
    by (simp add: parse_2021_01_01 example_df_def)
  with absent_column_needs_filled_cell [of ?e 737791 "example_df [''A'']" "''A''"]
  have a: "set_dataframe_value (example_df [''A'']) ?e ''A'' = Inr (example_df [''A''])"
    by (simp add: example_df_def)
  obtain T where T: "wrangle_data ?raw [''A''] = Inr T"
    using wrangle_absent_after_fill by (cases "wrangle_data ?raw [''A'']") auto
  have "\<exists>k<1. parse_date (Date (?raw ! k)) = parse_date (Date (?raw ! 1)) \<and>
          items (?raw ! k) ''A'' \<noteq> None"
    using absent_column_needs_filled_cell [of _ _ _ "''A''" ?raw "[''A'']" T 1] T by simp
  then have b: "\<exists>k<1. parse_date (Date (?raw ! k)) = parse_date ''2021-01-01''" by auto
  from a b show ?thesis by simp
qed

text \<open>
  Claim C7, as stated, fails. \<^verbatim>\<open>pd.to_datetime\<close> reads \<^verbatim>\<open>'2021-1-5'\<close>, which has not
  the shape \<^verbatim>\<open>YYYY-MM-DD\<close>, as 5 January: a table of five rows is returned. With an
  empty list of columns the loop never parses a date, and a date that cannot be read and
  is neither the least nor the greatest string goes unnoticed: a table is returned. With
  a column requested, a record before that one that lacks the column ends the call with
  \<^verbatim>\<open>KeyError\<close>, not with the error of the date.
\<close>

theorem malformed_date_without_ParseError:
  "\<not> date_shape ''2021-1-5'' \<and>
   \<not> isl (wrangle_data [entry_A ''2021-01-01'' (PyInt 1), entry_A ''2021-1-5'' (PyInt 2)] [''A'']) \<and>
   length (index (projr (wrangle_data [entry_A ''2021-01-01'' (PyInt 1),
                                       entry_A ''2021-1-5'' (PyInt 2)] [''A'']))) = 5 \<and>
   \<not> isl (wrangle_data [entry_A ''2021-01-01'' (PyInt 1), entry_A ''2021-01-1x'' (PyInt 2),
                        entry_A ''2021-01-31'' (PyInt 3)] []) \<and>
   parse_date ''2021-01-1x'' = Inl ParseError \<and>
   wrangle_data [\<lparr>Date = ''2021-01-01'', items = Map.empty\<rparr>,
                 entry_A ''2021-01-1x'' (PyInt 2), entry_A ''2021-01-31'' (PyInt 3)] [''A'']
     = Inl KeyError"
  using wrangle_unpadded_column wrangle_malformed_no_columns parse_2021_01_1x
    isl_projl [OF wrangle_malformed_after_absent]
  by simp

text \<open>
  Claim C7, amended. When \<^verbatim>\<open>pd.to_datetime\<close> raises on the date of a record and at least
  one column is requested, \<^verbatim>\<open>wrangle_data\<close> returns no table: the error of the call is
  not caught. When the date string on which it raises is the least or the greatest of
  the date strings, the call fails with that error, whatever the columns are: these two
  strings are parsed first.
\<close>

theorem malformed_date_fails:
  "(e \<in> set rawdata \<and> parse_date (Date e) = Inl ParseError \<and> column_array \<noteq> []
    \<longrightarrow> isl (wrangle_data rawdata column_array)) \<and>
   (rawdata \<noteq> [] \<and>
    (parse_date (hd (sort (map Date rawdata))) = Inl ParseError \<or>
     \<not> isl (parse_date (hd (sort (map Date rawdata)))) \<and>
     parse_date (last (sort (map Date rawdata))) = Inl ParseError)
    \<longrightarrow> wrangle_data rawdata column_array = Inl ParseError)"
proof -
  have 1: "isl (wrangle_data rawdata column_array)"
    if e: "e \<in> set rawdata" and p: "parse_date (Date e) = Inl ParseError"
      and ne: "column_array \<noteq> []"
  proof (cases "wrangle_data rawdata column_array")
    case (Inl err)
    then show ?thesis by simp
  next
    case (Inr T)
    from wrangle_data_parses [OF Inr ne e] p show ?thesis by auto
  qed
  have 2: "wrangle_data rawdata column_array = Inl ParseError"
    if ne: "rawdata \<noteq> []"
      and p: "parse_date (hd (sort (map Date rawdata))) = Inl ParseError \<or>
     \<not> isl (parse_date (hd (sort (map Date rawdata)))) \<and>
     parse_date (last (sort (map Date rawdata))) = Inl ParseError"
  proof -
    from p have "initialize_dataframe rawdata column_array = Inl ParseError"
      using ne by (auto simp: initialize_dataframe_def Let_def sort_dates_Nil split: sum.splits)
    then show ?thesis by (simp add: wrangle_data_def)
  qed
  from 1 2 show ?thesis by blast
qed

theorem malformed_date_fails_witness:
  "isl (wrangle_data [entry_A ''2021-01-01'' (PyInt 1), entry_A ''2021-01-1x'' (PyInt 2),
                      entry_A ''2021-01-31'' (PyInt 3)] [''A'']) \<and>
   wrangle_data [entry_A ''2021-01-01'' (PyInt 1), entry_A ''2021-01-1x'' (PyInt 2)] []
     = Inl ParseError"
proof -
  have a: "isl (wrangle_data [entry_A ''2021-01-01'' (PyInt 1), entry_A ''2021-01-1x'' (PyInt 2),
                      entry_A ''2021-01-31'' (PyInt 3)] [''A''])"
    using malformed_date_fails [of "entry_A ''2021-01-1x'' (PyInt 2)"
      "[entry_A ''2021-01-01'' (PyInt 1), entry_A ''2021-01-1x'' (PyInt 2),
        entry_A ''2021-01-31'' (PyInt 3)]" "[''A'']"]
    by (simp add: entry_A_def parse_2021_01_1x)
  have s: "sort (map Date [entry_A ''2021-01-01'' (PyInt 1), entry_A ''2021-01-1x'' (PyInt 2)])
      = [''2021-01-01'', ''2021-01-1x'']"
    by (simp add: entry_A_def)
  have b: "wrangle_data [entry_A ''2021-01-01'' (PyInt 1), entry_A ''2021-01-1x'' (PyInt 2)] []
     = Inl ParseError"
    using malformed_date_fails [of _ "[entry_A ''2021-01-01'' (PyInt 1),
        entry_A ''2021-01-1x'' (PyInt 2)]" "[]"]
    by (simp only: s) (simp add: parse_2021_01_01 parse_2021_01_1x)
  from a b show ?thesis by simp
qed

text \<open>
  Claim C8, as stated, fails. The code has no check of the precondition and no error of
  its own for the empty input: called with an empty list, \<^verbatim>\<open>wrangle_data\<close> fails with
  Python's \<^verbatim>\<open>IndexError\<close>, raised by the expression \<^verbatim>\<open>dates[0]\<close>.
\<close>

theorem empty_input_IndexError:
  "wrangle_data [] [''A''] = Inl IndexError"
  by (simp add: wrangle_data_def initialize_dataframe_def)

text \<open>
  Claim C8, amended. Called with an empty list of records, whatever the columns,
  \<^verbatim>\<open>wrangle_data\<close> returns no table: it fails with Python's \<^verbatim>\<open>IndexError\<close>, raised by
  \<^verbatim>\<open>dates[0]\<close>.
\<close>

theorem wrangle_data_empty_input:
  "wrangle_data [] column_array = Inl IndexError"
  by (simp add: wrangle_data_def initialize_dataframe_def)

theorem wrangle_data_empty_input_witness:
  "wrangle_data [] [] = Inl IndexError \<and>
   wrangle_data [] hospital_ventilator_columns = Inl IndexError"
  using wrangle_data_empty_input [of "[]"]
    wrangle_data_empty_input [of hospital_ventilator_columns]
  by simp

section \<open>The refresh cycle\<close>

text \<open>
  Claim C5, as stated, fails. The API gives two records, the second without the
  item \<^verbatim>\<open>'Daily Cases'\<close>: the first call of \<^verbatim>\<open>wrangle_data\<close> returns and
  \<^verbatim>\<open>hospital_ventilator_df\<close> is assigned, the second call raises \<^verbatim>\<open>KeyError\<close>, and the
  cycle ends with one table replaced, the other not, and the button showing the failure.
\<close>

theorem refresh_not_atomic:
  "hospital_ventilator_df (api_button_callback
       (Inr [entry_full ''2021-01-01'' 3, entry_no_cases ''2021-01-02'' 4]) example_state)
     \<noteq> hospital_ventilator_df example_state \<and>
   vaccine_cases_df (api_button_callback
       (Inr [entry_full ''2021-01-01'' 3, entry_no_cases ''2021-01-02'' 4]) example_state)
     = vaccine_cases_df example_state \<and>
   description (apibutton (api_button_callback
       (Inr [entry_full ''2021-01-01'' 3, entry_no_cases ''2021-01-02'' 4]) example_state))
     = ''UNAVAILABLE''"
proof -
  let ?api = "[entry_full ''2021-01-01'' 3, entry_no_cases ''2021-01-02'' 4]"
  obtain T where T: "wrangle_data ?api hospital_ventilator_columns = Inr T"
    and iT: "index T = [737791, 737792]"
    using wrangle_hospital_example
    by (cases "wrangle_data ?api hospital_ventilator_columns") auto
  have E: "wrangle_data ?api vaccine_cases_columns = Inl KeyError"
    using wrangle_vaccine_example by (rule isl_projl)
  have st: "api_button_callback (Inr ?api) example_state =
      show_unavailable (example_state\<lparr>hospital_ventilator_df := T\<rparr>)"
    by (simp add: api_button_callback_def T E refresh_graph_id)
  have "index (hospital_ventilator_df example_state) = [737791]"
    by (simp add: example_state_def example_df_def)
  with iT have "T \<noteq> hospital_ventilator_df example_state" by auto
  then show ?thesis
    by (simp add: st show_unavailable_def)
qed

text \<open>
  Claim C5, amended. A cycle in which the fetch and both calls of \<^verbatim>\<open>wrangle_data\<close>
  succeed replaces both tables and shows the success on the button. Every other cycle
  shows the failure on the button and leaves \<^verbatim>\<open>vaccine_cases_df\<close> as it was; it leaves
  \<^verbatim>\<open>hospital_ventilator_df\<close> as it was when the fetch or the first call fails, and
  with the new table when the first call succeeds and the second fails.
\<close>

theorem refresh_cycle_outcomes:
  "(api = Inl e \<or>
    (api = Inr apidata \<and> wrangle_data apidata hospital_ventilator_columns = Inl e)
    \<longrightarrow> hospital_ventilator_df (api_button_callback api st) = hospital_ventilator_df st \<and>
        vaccine_cases_df (api_button_callback api st) = vaccine_cases_df st \<and>
        apibutton (api_button_callback api st) =
          (apibutton st)\<lparr>disabled := True, icon := ''times'', description := ''UNAVAILABLE''\<rparr>) \<and>
   (api = Inr apidata \<and> wrangle_data apidata hospital_ventilator_columns = Inr df1 \<and>
    wrangle_data apidata vaccine_cases_columns = Inr df2
    \<longrightarrow> hospital_ventilator_df (api_button_callback api st) = df1 \<and>
        vaccine_cases_df (api_button_callback api st) = df2 \<and>
        apibutton (api_button_callback api st) =
          (apibutton st)\<lparr>icon := ''check'', disabled := True, description := ''REFRESHED''\<rparr>) \<and>
   (api = Inr apidata \<and> wrangle_data apidata hospital_ventilator_columns = Inr df1 \<and>
    wrangle_data apidata vaccine_cases_columns = Inl e
    \<longrightarrow> hospital_ventilator_df (api_button_callback api st) = df1 \<and>
        vaccine_cases_df (api_button_callback api st) = vaccine_cases_df st \<and>
        apibutton (api_button_callback api st) =
          (apibutton st)\<lparr>disabled := True, icon := ''times'', description := ''UNAVAILABLE''\<rparr>)"
proof (intro conjI impI)
  assume "api = Inl e \<or>
    (api = Inr apidata \<and> wrangle_data apidata hospital_ventilator_columns = Inl e)"
  then have "api_button_callback api st = show_unavailable st"
    by (auto simp: api_button_callback_def refresh_graph_id)
  then show "hospital_ventilator_df (api_button_callback api st) = hospital_ventilator_df st"
    "vaccine_cases_df (api_button_callback api st) = vaccine_cases_df st"
    "apibutton (api_button_callback api st) =
          (apibutton st)\<lparr>disabled := True, icon := ''times'', description := ''UNAVAILABLE''\<rparr>"
    by (simp_all add: show_unavailable_def)
next
  assume "api = Inr apidata \<and> wrangle_data apidata hospital_ventilator_columns = Inr df1 \<and>
    wrangle_data apidata vaccine_cases_columns = Inr df2"
  then have "api_button_callback api st =
      show_refreshed (st\<lparr>hospital_ventilator_df := df1, vaccine_cases_df := df2\<rparr>)"
    by (simp add: api_button_callback_def refresh_graph_id)
  then show "hospital_ventilator_df (api_button_callback api st) = df1"
    "vaccine_cases_df (api_button_callback api st) = df2"
    "apibutton (api_button_callback api st) =
          (apibutton st)\<lparr>icon := ''check'', disabled := True, description := ''REFRESHED''\<rparr>"
    by (simp_all add: show_refreshed_def)
next
  assume a: "api = Inr apidata \<and> wrangle_data apidata hospital_ventilator_columns = Inr df1 \<and>
    wrangle_data apidata vaccine_cases_columns = Inl e"
  then have "api_button_callback api st = show_unavailable (st\<lparr>hospital_ventilator_df := df1\<rparr>)"
    by (simp add: api_button_callback_def refresh_graph_id)
  then show "hospital_ventilator_df (api_button_callback api st) = df1"
    "vaccine_cases_df (api_button_callback api st) = vaccine_cases_df st"
    "apibutton (api_button_callback api st) =
          (apibutton st)\<lparr>disabled := True, icon := ''times'', description := ''UNAVAILABLE''\<rparr>"
    by (simp_all add: show_unavailable_def)
qed

theorem refresh_cycle_outcomes_witness:
  "hospital_ventilator_df (api_button_callback (Inl FetchError) example_state)
     = hospital_ventilator_df example_state \<and>
   vaccine_cases_df (api_button_callback (Inl FetchError) example_state)
     = vaccine_cases_df example_state \<and>
   description (apibutton (api_button_callback (Inl FetchError) example_state))
     = ''UNAVAILABLE'' \<and>
   Inr (hospital_ventilator_df
         (api_button_callback (Inr [entry_full ''2021-01-02'' 4]) example_state))
     = wrangle_data [entry_full ''2021-01-02'' 4] hospital_ventilator_columns \<and>
   Inr (vaccine_cases_df
         (api_button_callback (Inr [entry_full ''2021-01-02'' 4]) example_state))
     = wrangle_data [entry_full ''2021-01-02'' 4] vaccine_cases_columns \<and>
   description (apibutton
         (api_button_callback (Inr [entry_full ''2021-01-02'' 4]) example_state))
     = ''REFRESHED'' \<and>
   Inr (hospital_ventilator_df (api_button_callback
         (Inr [entry_full ''2021-01-01'' 3, entry_no_cases ''2021-01-02'' 4]) example_state))
     = wrangle_data [entry_full ''2021-01-01'' 3, entry_no_cases ''2021-01-02'' 4]
         hospital_ventilator_columns"
proof -
  let ?ok = "[entry_full ''2021-01-02'' 4]"
  let ?half = "[entry_full ''2021-01-01'' 3, entry_no_cases ''2021-01-02'' 4]"
  note 1 = refresh_cycle_outcomes [of "Inl FetchError" FetchError _ example_state]
  obtain df1 where df1: "wrangle_data ?ok hospital_ventilator_columns = Inr df1"
    using wrangle_second_hospital by (cases "wrangle_data ?ok hospital_ventilator_columns") auto
  obtain df2 where df2: "wrangle_data ?ok vaccine_cases_columns = Inr df2"
    using wrangle_second_vaccine by (cases "wrangle_data ?ok vaccine_cases_columns") auto
  note 2 = refresh_cycle_outcomes [of "Inr ?ok" _ ?ok example_state df1 df2]
  obtain df3 where df3: "wrangle_data ?half hospital_ventilator_columns = Inr df3"
    using wrangle_hospital_example
    by (cases "wrangle_data ?half hospital_ventilator_columns") auto
  have E: "wrangle_data ?half vaccine_cases_columns = Inl KeyError"
    using wrangle_vaccine_example by (rule isl_projl)
  note 3 = refresh_cycle_outcomes [of "Inr ?half" KeyError ?half example_state df3]
  from 1 have a: "hospital_ventilator_df (api_button_callback (Inl FetchError) example_state)
       = hospital_ventilator_df example_state"
    "vaccine_cases_df (api_button_callback (Inl FetchError) example_state)
       = vaccine_cases_df example_state"
    "description (apibutton (api_button_callback (Inl FetchError) example_state))
       = ''UNAVAILABLE''"
    by simp_all
  from 2 df1 df2 have b:
    "hospital_ventilator_df (api_button_callback (Inr ?ok) example_state) = df1"
    "vaccine_cases_df (api_button_callback (Inr ?ok) example_state) = df2"
    "description (apibutton (api_button_callback (Inr ?ok) example_state)) = ''REFRESHED''"
    by simp_all
  from 3 df3 E have c:
    "hospital_ventilator_df (api_button_callback (Inr ?half) example_state) = df3"
    by simp
  from a b c df1 df2 df3 show ?thesis by simp
qed

text \<open>
  Claim C10, as stated, fails. The button is disabled after the first run of the
  callback, but that does not end the refreshes of the session: a second click message
  that reaches the button runs the callback again, which fetches and wrangles again and
  replaces the table.
\<close>

theorem second_click_refreshes_again:
  "disabled (apibutton (on_click [Inr [entry_full ''2021-01-01'' 3]] example_state)) \<and>
   hospital_ventilator_df
     (on_click [Inr [entry_full ''2021-01-01'' 3], Inr [entry_full ''2021-01-02'' 4]]
        example_state)
     \<noteq> hospital_ventilator_df (on_click [Inr [entry_full ''2021-01-01'' 3]] example_state)"
proof -
  let ?a = "[entry_full ''2021-01-01'' 3]" and ?b = "[entry_full ''2021-01-02'' 4]"
  obtain A where A: "wrangle_data ?a hospital_ventilator_columns = Inr A"
    and iA: "index A = [737791]"
    using wrangle_first_hospital by (cases "wrangle_data ?a hospital_ventilator_columns") auto
  obtain A' where A': "wrangle_data ?a vaccine_cases_columns = Inr A'"
    using wrangle_first_vaccine by (cases "wrangle_data ?a vaccine_cases_columns") auto
  obtain B where B: "wrangle_data ?b hospital_ventilator_columns = Inr B"
    and iB: "index B = [737792]"
    using wrangle_second_hospital by (cases "wrangle_data ?b hospital_ventilator_columns") auto
  obtain B' where B': "wrangle_data ?b vaccine_cases_columns = Inr B'"
    using wrangle_second_vaccine by (cases "wrangle_data ?b vaccine_cases_columns") auto
  from iA iB have "B \<noteq> A" by auto
  then show ?thesis
    by (simp add: api_button_callback_def refresh_graph_id A A' B B' show_refreshed_def)
qed

text \<open>
  Claim C10, amended. After a run of the callback, with the refresh a success or a
  failure, the attribute \<^verbatim>\<open>disabled\<close> of the button is \<^verbatim>\<open>True\<close>.
\<close>

theorem callback_disables_button:
  "disabled (apibutton (api_button_callback api st))"
  by (simp add: api_button_callback_def refresh_graph_id show_unavailable_def
      show_refreshed_def Let_def split: sum.splits)

theorem callback_disables_button_witness:
  "disabled (apibutton (api_button_callback (Inl FetchError) example_state)) \<and>
   disabled (apibutton (api_button_callback (Inr [entry_full ''2021-01-01'' 3]) example_state))"
  using callback_disables_button [of "Inl FetchError" example_state]
    callback_disables_button [of "Inr [entry_full ''2021-01-01'' 3]" example_state]
  by simp

section \<open>What \<^verbatim>\<open>wrangle_data\<close> reads and writes\<close>



end
